theory Spec2Isabelle
  imports Complex_Main "HOL-Library.Sublist"
begin

section \<open>Strings and numbers of the host language\<close>

text \<open>
  Strings are lists of 8-bit characters. Numbers that hold durations are modelled as
  reals; segment indices and character limits are natural numbers (\<open>chunkScript\<close>
  assigns the indices \<open>i + 1\<close>). \<open>toLowerCase\<close> maps the letters A to Z; no other 8-bit
  character has a lower case in \<open>[a-z0-9]\<close>, so \<open>slugify\<close> is not affected.
\<close>

definition isWhitespace :: "char \<Rightarrow> bool" where
  \<comment> \<open>the characters that \<open>\s\<close> and \<open>String.prototype.trim\<close> treat as blank\<close>
  "isWhitespace c =
     (c \<in> set [CHR 0x09, CHR 0x0A, CHR 0x0B, CHR 0x0C, CHR 0x0D, CHR '' '', CHR 0xA0])"

definition trim :: "string \<Rightarrow> string" where
  "trim s = rev (dropWhile isWhitespace (rev (dropWhile isWhitespace s)))"

fun numberToString :: "nat \<Rightarrow> string" where
  \<comment> \<open>\<open>String(n)\<close> for a natural number: its decimal digits\<close>
  "numberToString n =
     (if n < 10 then [''0123456789'' ! n]
      else numberToString (n div 10) @ [''0123456789'' ! (n mod 10)])"

definition intToString :: "int \<Rightarrow> string" where
  "intToString i = (if i < 0 then ''-'' @ numberToString (nat (- i)) else numberToString (nat i))"

definition padStart :: "nat \<Rightarrow> char \<Rightarrow> string \<Rightarrow> string" where
  "padStart width c s = replicate (width - length s) c @ s"

fun arrayJoin :: "string \<Rightarrow> string list \<Rightarrow> string" where
  "arrayJoin sep [] = []"
| "arrayJoin sep [x] = x"
| "arrayJoin sep (x # y # ys) = x @ sep @ arrayJoin sep (y # ys)"

definition remainder :: "real \<Rightarrow> real \<Rightarrow> real" where
  \<comment> \<open>the \<open>%\<close> operator: the result takes the sign of the dividend\<close>
  "remainder x y = x - y * of_int (if x / y < 0 then \<lceil>x / y\<rceil> else \<lfloor>x / y\<rfloor>)"

section \<open>utils.ts\<close>

definition toLowerCase :: "string \<Rightarrow> string" where
  "toLowerCase s = map (\<lambda>c.
      case map_of (zip ''ABCDEFGHIJKLMNOPQRSTUVWXYZ'' ''abcdefghijklmnopqrstuvwxyz'') c of
        Some l \<Rightarrow> l | None \<Rightarrow> c) s"

definition isSlugChar :: "char \<Rightarrow> bool" where
  \<comment> \<open>the class \<open>[a-z0-9]\<close>\<close>
  "isSlugChar c = (c \<in> set ''abcdefghijklmnopqrstuvwxyz0123456789'')"

function dashRuns :: "string \<Rightarrow> string" where
  \<comment> \<open>\<open>.replace(/[^a-z0-9]+/g, '-')\<close>\<close>
  "dashRuns [] = []"
| "dashRuns (c # cs) =
     (if isSlugChar c then c # dashRuns cs
      else CHR ''-'' # dashRuns (dropWhile (\<lambda>d. \<not> isSlugChar d) cs))"
  by pat_completeness auto
termination
  by (relation "measure length") (auto simp: le_imp_less_Suc length_dropWhile_le)

definition slugify :: "string \<Rightarrow> string" where
  "slugify t =
     take 60 (rev (dropWhile (\<lambda>c. c = CHR ''-'') (rev (dropWhile (\<lambda>c. c = CHR ''-'')
       (dashRuns (filter (\<lambda>c. c \<noteq> CHR 0x27) (toLowerCase t)))))))"

definition zeroPad :: "nat \<Rightarrow> string" where
  \<comment> \<open>the default width 3 is the only one used\<close>
  "zeroPad n = padStart 3 (CHR ''0'') (numberToString n)"

definition youtubeTimestamp :: "real \<Rightarrow> string" where
  "youtubeTimestamp seconds =
     (let h = \<lfloor>seconds / 3600\<rfloor>;
          m = \<lfloor>remainder seconds 3600 / 60\<rfloor>;
          s = \<lfloor>remainder seconds 60\<rfloor>
      in if h > 0
         then intToString h @ '':'' @ padStart 2 (CHR ''0'') (intToString m) @ '':'' @
              padStart 2 (CHR ''0'') (intToString s)
         else intToString m @ '':'' @ padStart 2 (CHR ''0'') (intToString s))"

definition srtTimestamp :: "real \<Rightarrow> string" where
  "srtTimestamp seconds =
     (let h = \<lfloor>seconds / 3600\<rfloor>;
          m = \<lfloor>remainder seconds 3600 / 60\<rfloor>;
          s = \<lfloor>remainder seconds 60\<rfloor>;
          ms = \<lfloor>remainder seconds 1 * 1000 + 1 / 2\<rfloor>
      in padStart 2 (CHR ''0'') (intToString h) @ '':'' @
         padStart 2 (CHR ''0'') (intToString m) @ '':'' @
         padStart 2 (CHR ''0'') (intToString s) @ '','' @
         padStart 3 (CHR ''0'') (intToString ms))"

section \<open>Data model\<close>

datatype SegmentSource = SrcHeading | SrcAuto | SrcTemplate

record Segment =
  index :: nat
  title :: string
  slug :: string
  seg_text :: string
  source :: SegmentSource
  hash :: string

record RenderResult =
  segment :: Segment
  filePath :: string
  fileName :: string
  cached :: bool
  duration :: real

record TimelineEntry =
  tl_index :: nat
  tl_title :: string
  start_seconds :: real
  tl_duration_seconds :: real
  end_seconds :: real

record TimelineData =
  segments :: "TimelineEntry list"
  total_duration_seconds :: real
  has_durations :: bool

section \<open>outputs.ts: timeline, chapters, captions\<close>

fun timelineLoop :: "real \<Rightarrow> RenderResult list \<Rightarrow> TimelineEntry list \<times> real" where
  \<comment> \<open>the \<open>results.map\<close> callback with its mutable \<open>cursor\<close>; returns the entries and the final
      cursor. The additions are of reals, in the order of the program's double additions.\<close>
  "timelineLoop cursor [] = ([], cursor)"
| "timelineLoop cursor (r # rs) =
     (let entry = \<lparr> tl_index = index (segment r),
                     tl_title = title (segment r),
                     start_seconds = cursor,
                     tl_duration_seconds = duration r,
                     end_seconds = cursor + duration r \<rparr>;
          (entries, final) = timelineLoop (cursor + duration r) rs
      in (entry # entries, final))"

definition buildTimeline :: "RenderResult list \<Rightarrow> TimelineData" where
  "buildTimeline results =
     (let hasDurations = list_all (\<lambda>r. duration r > 0) results;
          (entries, cursor) = timelineLoop 0 results
      in \<lparr> segments = entries,
           total_duration_seconds = cursor,
           has_durations = hasDurations \<rparr>)"

definition buildChapters :: "TimelineData \<Rightarrow> string option" where
  "buildChapters timeline =
     (if \<not> has_durations timeline then None
      else Some (arrayJoin [CHR 0x0A]
             (map (\<lambda>s. youtubeTimestamp (start_seconds s) @ '' '' @ tl_title s)
                  (segments timeline))))"

definition captionBlock :: "Segment list \<Rightarrow> TimelineEntry \<times> nat \<Rightarrow> string" where
  \<comment> \<open>the callback of \<open>timeline.segments.map((t, i) => ...)\<close>\<close>
  "captionBlock segs = (\<lambda>(t, i).
     (let segText = (if i < length segs then seg_text (segs ! i) else '''');
          captionText = (if length segText > 200 then take 197 segText @ ''...'' else segText)
      in numberToString (i + 1) @ [CHR 0x0A] @
         srtTimestamp (start_seconds t) @ '' --> '' @ srtTimestamp (end_seconds t) @
         [CHR 0x0A] @ captionText))"

definition buildCaptionsSrt :: "TimelineData \<Rightarrow> Segment list \<Rightarrow> string option" where
  "buildCaptionsSrt timeline segs =
     (if \<not> has_durations timeline then None
      else Some (arrayJoin [CHR 0x0A, CHR 0x0A]
             (map (captionBlock segs)
                  (zip (segments timeline) [0 ..< length (segments timeline)]))))"

section \<open>chunking.ts\<close>

record Section =
  sec_title :: string
  sec_text :: string

datatype ChunkMode = ModeHeadings | ModeAuto

record ChunkOptions =
  c_mode :: ChunkMode
  c_maxChars :: nat
  c_language :: "string option"
  c_template :: "string option"
  c_templateDir :: string
  c_voiceId :: string

text \<open>
  What \<open>chunkScript\<close> takes from outside the repository: the SHA-256 based
  \<open>contentHash\<close> and the content of a template file, if the file exists.
\<close>

record ChunkEnv =
  contentHash :: "string list \<Rightarrow> string"
  readTemplateFile :: "string \<Rightarrow> string option"

fun splitOn :: "char \<Rightarrow> string \<Rightarrow> string list" where
  \<comment> \<open>\<open>content.split('\n')\<close>: the empty string gives one empty line\<close>
  "splitOn c [] = [[]]"
| "splitOn c (x # xs) =
     (if x = c then [] # splitOn c xs
      else (case splitOn c xs of [] \<Rightarrow> [[x]] | l # ls \<Rightarrow> (x # l) # ls))"

definition isLineTerminator :: "char \<Rightarrow> bool" where
  \<comment> \<open>the characters that \<open>.\<close> does not match\<close>
  "isLineTerminator c = (c = CHR 0x0A \<or> c = CHR 0x0D)"

definition headingMatch :: "string \<Rightarrow> string \<Rightarrow> string option" where
  \<comment> \<open>\<open>line.match(/^<marks>\s+(.+)$/)\<close>: the captured group, or None. The greedy \<open>\s+\<close>
      gives one blank character back when nothing else is left for \<open>(.+)\<close>.\<close>
  "headingMatch marks line =
     (if take (length marks) line \<noteq> marks then None
      else let rest = drop (length marks) line;
               blanks = takeWhile isWhitespace rest;
               after = dropWhile isWhitespace rest
           in if blanks = [] then None
              else if after \<noteq> [] then
                (if list_ex isLineTerminator after then None else Some after)
              else if length blanks \<ge> 2 \<and> \<not> isLineTerminator (last blanks)
                then Some [last blanks]
              else None)"

record ParseState =
  sections :: "Section list"
  currentTitle :: string
  currentLines :: "string list"
  h1Title :: string

definition hasContent :: "ParseState \<Rightarrow> bool" where
  \<comment> \<open>\<open>currentTitle || currentLines.some((l) => l.trim())\<close>\<close>
  "hasContent st = (currentTitle st \<noteq> [] \<or> list_ex (\<lambda>l. trim l \<noteq> []) (currentLines st))"

definition pushSection :: "ParseState \<Rightarrow> Section list" where
  "pushSection st =
     (if hasContent st then
        (let fallbackTitle = (if h1Title st \<noteq> [] then h1Title st else ''Preamble'')
         in sections st @
            [\<lparr> sec_title = (if currentTitle st \<noteq> [] then currentTitle st else fallbackTitle),
               sec_text = trim (arrayJoin [CHR 0x0A] (currentLines st)) \<rparr>])
      else sections st)"

definition parseLine :: "ParseState \<Rightarrow> string \<Rightarrow> ParseState" where
  \<comment> \<open>the body of the loop over the lines\<close>
  "parseLine st line =
     (case headingMatch ''##'' line of
        Some t \<Rightarrow> st\<lparr> sections := pushSection st, currentTitle := trim t, currentLines := [] \<rparr>
      | None \<Rightarrow>
         (case headingMatch ''#'' line of
            Some t \<Rightarrow>
              (if currentTitle st = [] \<and> sections st = [] then st\<lparr> h1Title := trim t \<rparr>
               else st\<lparr> currentLines := currentLines st @ [line] \<rparr>)
          | None \<Rightarrow> st\<lparr> currentLines := currentLines st @ [line] \<rparr>))"

definition parseMarkdownHeadings :: "string \<Rightarrow> Section list" where
  "parseMarkdownHeadings content =
     (let st = foldl parseLine
                 \<lparr> sections = [], currentTitle = [], currentLines = [], h1Title = [] \<rparr>
                 (splitOn (CHR 0x0A) content)
      in filter (\<lambda>s. length (sec_text s) > 0) (pushSection st))"

definition isTerminal :: "char \<Rightarrow> bool" where
  \<comment> \<open>the class \<open>[.!?]\<close>\<close>
  "isTerminal c = (c = CHR ''.'' \<or> c = CHR ''!'' \<or> c = CHR ''?'')"

function matchSentences :: "string \<Rightarrow> string list" where
  \<comment> \<open>\<open>text.match(/[^.!?]+[.!?]+[\s]*/g)\<close>, the empty list standing for null: a match starts
      at the next character outside \<open>[.!?]\<close>, and there is none when the run of such
      characters reaches the end of the text\<close>
  "matchSentences s =
     (let s1 = dropWhile isTerminal s;
          body = takeWhile (\<lambda>c. \<not> isTerminal c) s1;
          r1 = dropWhile (\<lambda>c. \<not> isTerminal c) s1
      in if body = [] \<or> r1 = [] then []
         else let marks = takeWhile isTerminal r1;
                  r2 = dropWhile isTerminal r1;
                  blanks = takeWhile isWhitespace r2;
                  r3 = dropWhile isWhitespace r2
              in (body @ marks @ blanks) # matchSentences r3)"
  by pat_completeness auto
termination
proof (relation "measure length", simp, goal_cases)
  case (1 s s1 body r1 marks r2 blanks r3)
  have a: "length r3 \<le> length r2" unfolding 1 by (rule length_dropWhile_le)
  have b: "length r2 \<le> length r1" unfolding 1 by (rule length_dropWhile_le)
  have "s1 = body @ r1" unfolding 1 by simp
  moreover have "body \<noteq> []" using 1 by simp
  ultimately have c: "length r1 < length s1" by (cases body) auto
  have d: "length s1 \<le> length s" unfolding 1 by (rule length_dropWhile_le)
  from a b c d show ?case by simp
qed

fun chunkLoop :: "nat \<Rightarrow> string list \<Rightarrow> string \<Rightarrow> nat \<Rightarrow> Section list" where
  \<comment> \<open>the loop over the sentences with its variables \<open>current\<close> and \<open>chunkNum\<close>, followed by
      the final push; returns the chunks pushed from here on\<close>
  "chunkLoop maxChars [] current chunkNum =
     (if trim current \<noteq> []
      then [\<lparr> sec_title = ''Segment '' @ numberToString chunkNum, sec_text = trim current \<rparr>]
      else [])"
| "chunkLoop maxChars (sentence # rest) current chunkNum =
     (if length current + length sentence > maxChars \<and> length current > 0
      then \<lparr> sec_title = ''Segment '' @ numberToString chunkNum, sec_text = trim current \<rparr>
           # chunkLoop maxChars rest sentence (chunkNum + 1)
      else chunkLoop maxChars rest (current @ sentence) chunkNum)"

definition autoChunk :: "string \<Rightarrow> nat \<Rightarrow> Section list" where
  "autoChunk content maxChars =
     (let text = trim content
      in if length text \<le> maxChars then [\<lparr> sec_title = ''Segment 1'', sec_text = text \<rparr>]
         else let sentences = (case matchSentences text of [] \<Rightarrow> [text] | m # ms \<Rightarrow> m # ms)
              in chunkLoop maxChars sentences [] 1)"

definition TEMPLATE_MAP :: "string \<Rightarrow> (string option \<times> string option) option" where
  \<comment> \<open>template name to its intro and outro file names\<close>
  "TEMPLATE_MAP name =
     (if name = ''youtube'' then Some (Some ''youtube_intro.txt'', Some ''youtube_outro.txt'')
      else if name = ''podcast'' then Some (Some ''podcast_intro.txt'', None)
      else if name = ''shortform'' then Some (Some ''shortform_hook.txt'', None)
      else None)"

definition join :: "string list \<Rightarrow> string" where
  \<comment> \<open>\<open>path.join\<close>, as concatenation with the separator (no normalisation)\<close>
  "join parts = arrayJoin ''/'' parts"

definition loadTemplate :: "ChunkEnv \<Rightarrow> string \<Rightarrow> string \<Rightarrow> string option" where
  "loadTemplate env templateDir filename =
     map_option trim (readTemplateFile env (join [templateDir, filename]))"

definition templateText :: "ChunkEnv \<Rightarrow> string \<Rightarrow> string option \<Rightarrow> string option" where
  \<comment> \<open>\<open>if (tmpl.x) { const t = await loadTemplate(...); if (t) ... }\<close>: the text to insert, if any\<close>
  "templateText env templateDir file =
     (case file of None \<Rightarrow> None
      | Some f \<Rightarrow> (case loadTemplate env templateDir f of
                     None \<Rightarrow> None
                   | Some t \<Rightarrow> if t = [] then None else Some t))"

definition rawSections :: "string \<Rightarrow> ChunkOptions \<Rightarrow> (Section \<times> SegmentSource) list" where
  \<comment> \<open>step 1 of \<open>chunkScript\<close>\<close>
  "rawSections content options =
     (case c_mode options of
        ModeHeadings \<Rightarrow>
          (let headingSections = parseMarkdownHeadings content;
               hasRealHeadings = list_ex (\<lambda>s. sec_title s \<noteq> ''Preamble''
                                             \<and> sec_title s \<noteq> ''Untitled Section'') headingSections
           in if hasRealHeadings \<and> length headingSections > 0
              then map (\<lambda>s. (s, SrcHeading)) headingSections
              else map (\<lambda>s. (s, SrcAuto)) (autoChunk content (c_maxChars options)))
      | ModeAuto \<Rightarrow> map (\<lambda>s. (s, SrcAuto)) (autoChunk content (c_maxChars options)))"

definition applyTemplate ::
  "ChunkEnv \<Rightarrow> ChunkOptions \<Rightarrow> (Section \<times> SegmentSource) list \<Rightarrow> (Section \<times> SegmentSource) list" where
  \<comment> \<open>step 2 of \<open>chunkScript\<close>\<close>
  "applyTemplate env options raw =
     (case c_template options of
        None \<Rightarrow> raw
      | Some name \<Rightarrow>
         (if name = [] then raw
          else case TEMPLATE_MAP name of
            None \<Rightarrow> raw
          | Some (intro, outro) \<Rightarrow>
              (case templateText env (c_templateDir options) intro of
                 None \<Rightarrow> []
               | Some t \<Rightarrow> [(\<lparr> sec_title = ''Intro'', sec_text = t \<rparr>, SrcTemplate)])
              @ raw @
              (case templateText env (c_templateDir options) outro of
                 None \<Rightarrow> []
               | Some t \<Rightarrow> [(\<lparr> sec_title = ''Outro'', sec_text = t \<rparr>, SrcTemplate)])))"

definition numberSegment :: "ChunkEnv \<Rightarrow> ChunkOptions \<Rightarrow> (Section \<times> SegmentSource) \<times> nat \<Rightarrow> Segment" where
  \<comment> \<open>step 3 of \<open>chunkScript\<close>: the callback of \<open>rawSections.map((section, i) => ...)\<close>\<close>
  "numberSegment env options = (\<lambda>((section, src), i).
     \<lparr> index = i + 1,
       title = sec_title section,
       slug = slugify (sec_title section),
       seg_text = sec_text section,
       source = src,
       hash = contentHash env [sec_text section, c_voiceId options,
                (case c_language options of None \<Rightarrow> ''en'' | Some l \<Rightarrow> l)] \<rparr>)"

definition chunkScript :: "ChunkEnv \<Rightarrow> string \<Rightarrow> ChunkOptions \<Rightarrow> Segment list" where
  "chunkScript env content options =
     (let raw = applyTemplate env options (rawSections content options)
      in map (numberSegment env options) (zip raw [0 ..< length raw]))"

section \<open>render.ts\<close>

text \<open>
  The file system is a map from paths to file contents. \<open>path.join\<close> is concatenation
  with \<open>/\<close>, directories are not modelled (\<open>ensureDir\<close> has no effect here), and
  writing a file succeeds. A manifest file that parses is taken to hold a manifest
  object (on a file holding other JSON, such as \<open>null\<close>, the program throws in its first
  loop; such files are outside this model). Console output is left out.
\<close>

record RenderOptions =
  voiceId :: string
  outputDir :: string
  force :: bool
  mock :: bool
  language :: "string option"

record CacheEntry =
  entry_hash :: string
  entry_file :: string
  entry_duration :: real

type_synonym CacheManifest = "string \<rightharpoonup> CacheEntry"

record TTSRequest =
  req_text :: string
  voice_id :: string
  audio_format :: string
  req_language :: "string option"

record TTSResponse =
  audio_data :: "nat list"
  duration_seconds :: real
  sample_rate :: nat
  format :: string

text \<open>
  A file holds bytes, or the JSON text of a cache manifest (kept as the manifest it
  parses to). What \<open>ffprobe\<close> can do is one of four outcomes, after the branches of
  \<open>probeDuration\<close>.
\<close>

datatype FileContent = Bytes "nat list" | ManifestJson CacheManifest

datatype ProbeOutcome = ExecFailed | OutputNotJson | DurationNaN | DurationParsed real

text \<open>
  The collaborators outside the repository: the TTS client and \<open>ffprobe\<close>. Each may
  depend on, and change, a state \<open>'x\<close> of its own. A TTS call throws (\<open>Inl\<close>, with the
  text of the error) or returns a response.
\<close>

record 'x Collaborators =
  generateSpeech :: "'x \<Rightarrow> TTSRequest \<Rightarrow> (string + TTSResponse) \<times> 'x"
  ffprobe :: "'x \<Rightarrow> string \<Rightarrow> ProbeOutcome \<times> 'x"

text \<open>
  The world a render pass runs in: the collaborators' state, the files on disk, and the
  log of the TTS calls made so far, each with its outcome.
\<close>

record 'x World =
  external :: 'x
  files :: "string \<rightharpoonup> FileContent"
  ttsLog :: "(TTSRequest \<times> (string + TTSResponse)) list"

definition fileExists :: "(string \<rightharpoonup> FileContent) \<Rightarrow> string \<Rightarrow> bool" where
  "fileExists fs path = (fs path \<noteq> None)"

definition writeOutputFile :: "string \<Rightarrow> FileContent \<Rightarrow> 'x World \<Rightarrow> 'x World" where
  "writeOutputFile path content w = w\<lparr> files := (files w)(path \<mapsto> content) \<rparr>"

definition probeDuration :: "'x Collaborators \<Rightarrow> string \<Rightarrow> 'x World \<Rightarrow> real option \<times> 'x World" where
  \<comment> \<open>null when \<open>ffprobe\<close> or \<open>JSON.parse\<close> throws, or when \<open>parseFloat\<close> gives NaN\<close>
  "probeDuration env path w =
     (let (outcome, x) = ffprobe env (external w) path
      in (case outcome of DurationParsed dur \<Rightarrow> Some dur | _ \<Rightarrow> None, w\<lparr> external := x \<rparr>))"

definition cacheManifestPath :: "string \<Rightarrow> string" where
  "cacheManifestPath dir = join [dir, ''segments'', ''.cache.json'']"

definition loadCacheManifest :: "(string \<rightharpoonup> FileContent) \<Rightarrow> string \<Rightarrow> CacheManifest" where
  \<comment> \<open>a missing file and a file that does not parse both give the empty manifest\<close>
  "loadCacheManifest fs dir =
     (case fs (cacheManifestPath dir) of
        Some (ManifestJson manifest) \<Rightarrow> manifest
      | _ \<Rightarrow> Map.empty)"

definition saveCacheManifest :: "string \<Rightarrow> CacheManifest \<Rightarrow> 'x World \<Rightarrow> 'x World" where
  "saveCacheManifest dir manifest w =
     writeOutputFile (cacheManifestPath dir) (ManifestJson manifest) w"

definition segmentFileName :: "Segment \<Rightarrow> string" where
  "segmentFileName seg =
     zeroPad (index seg) @ ''-'' @ (if slug seg \<noteq> [] then slug seg else slugify (title seg))
       @ ''.wav''"

definition segmentCacheKey :: "Segment \<Rightarrow> string" where
  "segmentCacheKey seg = zeroPad (index seg) @ ''-'' @ slug seg"

definition segmentFilePath :: "RenderOptions \<Rightarrow> Segment \<Rightarrow> string" where
  \<comment> \<open>\<open>join(segDir, fileName)\<close> with \<open>segDir = join(options.outputDir, 'segments')\<close>\<close>
  "segmentFilePath options seg = join [join [outputDir options, ''segments''], segmentFileName seg]"

definition initialCache :: "RenderOptions \<Rightarrow> (string \<rightharpoonup> FileContent) \<Rightarrow> CacheManifest" where
  \<comment> \<open>\<open>options.force ? {} : await loadCacheManifest(options.outputDir)\<close>\<close>
  "initialCache options fs =
     (if force options then Map.empty else loadCacheManifest fs (outputDir options))"

definition checkCache ::
  "RenderOptions \<Rightarrow> CacheManifest \<Rightarrow> (string \<rightharpoonup> FileContent) \<Rightarrow> Segment \<Rightarrow> RenderResult" where
  \<comment> \<open>the body of the first loop of \<open>renderSegments\<close>\<close>
  "checkCache options cache fs seg =
     (let key = segmentCacheKey seg;
          fName = segmentFileName seg;
          fPath = segmentFilePath options seg;
          currentHash = hash seg
      in if \<not> force options
            \<and> (case cache key of None \<Rightarrow> False | Some e \<Rightarrow> entry_hash e = currentHash)
            \<and> (case cache key of None \<Rightarrow> False | Some e \<Rightarrow> entry_file e = fName)
            \<and> fileExists fs fPath
         then \<lparr> segment = seg, filePath = fPath, fileName = fName, cached = True,
                duration = (case cache key of None \<Rightarrow> 0 | Some e \<Rightarrow> entry_duration e) \<rparr>
         else \<lparr> segment = seg, filePath = fPath, fileName = fName, cached = False,
                duration = 0 \<rparr>)"

definition ttsRequest :: "RenderOptions \<Rightarrow> Segment \<Rightarrow> TTSRequest" where
  "ttsRequest options seg =
     \<lparr> req_text = seg_text seg, voice_id = voiceId options, audio_format = ''wav'',
       req_language = language options \<rparr>"

definition renderError :: "Segment \<Rightarrow> string \<Rightarrow> string" where
  \<comment> \<open>the message of the error thrown from the catch block\<close>
  "renderError seg err =
     ''Failed to render segment '' @ [CHR 0x22] @ title seg @ [CHR 0x22] @ '': '' @ err"

definition renderOne ::
  "'x Collaborators \<Rightarrow> RenderOptions \<Rightarrow> RenderResult \<Rightarrow> CacheManifest \<Rightarrow> 'x World
     \<Rightarrow> (string + RenderResult \<times> CacheManifest) \<times> 'x World" where
  \<comment> \<open>the try/catch of the second loop, for a result that is not cached\<close>
  "renderOne env options result updatedCache w =
     (let seg = segment result;
          request = ttsRequest options seg;
          (outcome, x) = generateSpeech env (external w) request;
          w1 = w\<lparr> external := x, ttsLog := ttsLog w @ [(request, outcome)] \<rparr>
      in case outcome of
           Inl err \<Rightarrow> (Inl (renderError seg err), w1)
         | Inr ttsResponse \<Rightarrow>
            (let w2 = writeOutputFile (filePath result) (Bytes (audio_data ttsResponse)) w1;
                 (probed, w3) = probeDuration env (filePath result) w2;
                 result' = result\<lparr> duration :=
                             (case probed of Some d \<Rightarrow> d
                              | None \<Rightarrow> duration_seconds ttsResponse) \<rparr>;
                 updatedCache' = updatedCache(segmentCacheKey seg \<mapsto>
                             \<lparr> entry_hash = hash seg,
                               entry_file = fileName result,
                               entry_duration = duration_seconds ttsResponse \<rparr>)
             in (Inr (result', updatedCache'), w3)))"

fun renderNew ::
  "'x Collaborators \<Rightarrow> RenderOptions \<Rightarrow> RenderResult list \<Rightarrow> CacheManifest \<Rightarrow> 'x World
     \<Rightarrow> (string + RenderResult list \<times> CacheManifest) \<times> 'x World" where
  \<comment> \<open>the second loop of \<open>renderSegments\<close>: the results with their durations filled in and
      the updated cache, or the error thrown\<close>
  "renderNew env options [] updatedCache w = (Inr ([], updatedCache), w)"
| "renderNew env options (result # rest) updatedCache w =
     (if cached result then
        (case renderNew env options rest updatedCache w of
           (Inl e, w') \<Rightarrow> (Inl e, w')
         | (Inr (results, cache'), w') \<Rightarrow> (Inr (result # results, cache'), w'))
      else
        (case renderOne env options result updatedCache w of
           (Inl e, w1) \<Rightarrow> (Inl e, w1)
         | (Inr (result', cache1), w1) \<Rightarrow>
            (case renderNew env options rest cache1 w1 of
               (Inl e, w') \<Rightarrow> (Inl e, w')
             | (Inr (results, cache'), w') \<Rightarrow> (Inr (result' # results, cache'), w'))))"

definition renderSegments ::
  "'x Collaborators \<Rightarrow> RenderOptions \<Rightarrow> Segment list \<Rightarrow> 'x World
     \<Rightarrow> (string + RenderResult list) \<times> 'x World" where
  "renderSegments env options segs w =
     (let cache = initialCache options (files w);
          results = map (checkCache options cache (files w)) segs
      in case renderNew env options results cache w of
           (Inl e, w') \<Rightarrow> (Inl e, w')
         | (Inr (results', updatedCache), w') \<Rightarrow>
             (Inr results', saveCacheManifest (outputDir options) updatedCache w'))"

definition isCacheHit :: "RenderOptions \<Rightarrow> (string \<rightharpoonup> FileContent) \<Rightarrow> Segment \<Rightarrow> bool" where
  \<comment> \<open>the decision the first loop of \<open>renderSegments\<close> takes for a segment\<close>
  "isCacheHit options fs seg = cached (checkCache options (initialCache options fs) fs seg)"

definition misses :: "RenderResult list \<Rightarrow> RenderResult list" where
  \<comment> \<open>the results the second loop does not skip\<close>
  "misses rs = filter (\<lambda>r. \<not> cached r) rs"

section \<open>Reading the index back from a cache key\<close>

text \<open>
  These functions are not part of the program: they decode the decimal index at the start
  of a cache key, to show that segments with different indices have different keys.
\<close>

definition digitValue :: "char \<Rightarrow> nat" where
  "digitValue c = (case map_of (zip ''0123456789'' [0 ..< 10]) c of Some d \<Rightarrow> d | None \<Rightarrow> 0)"

definition decimalValue :: "string \<Rightarrow> nat" where
  "decimalValue s = foldl (\<lambda>a c. 10 * a + digitValue c) 0 s"

definition keyIndex :: "string \<Rightarrow> nat" where
  "keyIndex k = decimalValue (takeWhile (\<lambda>c. c \<noteq> CHR ''-'') k)"

section \<open>Example data\<close>

definition exampleSegment :: "nat \<Rightarrow> string \<Rightarrow> string \<Rightarrow> string \<Rightarrow> Segment" where
  "exampleSegment i t body h =
     \<lparr> index = i, title = t, slug = slugify t, seg_text = body, source = SrcHeading, hash = h \<rparr>"

definition exampleResult :: "Segment \<Rightarrow> real \<Rightarrow> RenderResult" where
  "exampleResult seg d =
     \<lparr> segment = seg,
       filePath = join [join [''out'', ''segments''], segmentFileName seg],
       fileName = segmentFileName seg,
       cached = False,
       duration = d \<rparr>"

definition exampleClient :: "nat Collaborators" where
  \<comment> \<open>a client that fails on the text \<open>FAIL\<close> and otherwise estimates 2 seconds, and an
      \<open>ffprobe\<close> that measures 2.5 seconds\<close>
  "exampleClient =
     \<lparr> generateSpeech = (\<lambda>n request.
          (if req_text request = ''FAIL'' then Inl ''Error: rate limited''
           else Inr \<lparr> audio_data = [82, 73, 70, 70], duration_seconds = 2,
                      sample_rate = 24, format = ''wav'' \<rparr>, n + 1)),
       ffprobe = (\<lambda>n path. (DurationParsed (5 / 2), n)) \<rparr>"

definition exampleOptions :: RenderOptions where
  "exampleOptions =
     \<lparr> voiceId = ''ellie'', outputDir = ''out'', force = False, mock = False,
       language = Some ''en'' \<rparr>"

definition emptyWorld :: "nat World" where
  "emptyWorld = \<lparr> external = 0, files = Map.empty, ttsLog = [] \<rparr>"

definition warmWorld :: "nat World" where
  \<comment> \<open>a manifest with one entry, and the audio file the entry names\<close>
  "warmWorld =
     \<lparr> external = 0,
       files = [''out/segments/.cache.json'' \<mapsto> ManifestJson
                   [''001-intro'' \<mapsto> \<lparr> entry_hash = ''h1'', entry_file = ''001-intro.wav'',
                                        entry_duration = 3 \<rparr>],
                ''out/segments/001-intro.wav'' \<mapsto> Bytes [82, 73, 70, 70]],
       ttsLog = [] \<rparr>"

definition twoSegments :: "Segment list" where
  "twoSegments = [exampleSegment 1 ''Intro'' ''Hello.'' ''h1'',
                  exampleSegment 2 ''Body'' ''Main part.'' ''h2'']"

definition failingSegments :: "Segment list" where
  "failingSegments = [exampleSegment 1 ''Intro'' ''Hello.'' ''h1'',
                      exampleSegment 2 ''Body'' ''FAIL'' ''h2'',
                      exampleSegment 3 ''End'' ''Bye.'' ''h3'']"

definition h1OnlyScript :: string where
  "h1OnlyScript = ''# My Video'' @ [CHR 0x0A, CHR 0x0A] @ ''First part. Second part.''"

definition headingsOptions :: ChunkOptions where
  "headingsOptions =
     \<lparr> c_mode = ModeHeadings, c_maxChars = 12, c_language = None, c_template = None,
       c_templateDir = ''templates'', c_voiceId = ''ellie'' \<rparr>"

section \<open>The render loop\<close>

lemma misses_simps [simp]:
  "misses [] = []"
  "misses (r # rs) = (if cached r then misses rs else r # misses rs)"
  "misses (xs @ ys) = misses xs @ misses ys"
  by (simp_all add: misses_def)

lemma renderOne_log:
  "ttsLog (snd (renderOne env options r uc w)) =
     ttsLog w @ [(ttsRequest options (segment r),
                  fst (generateSpeech env (external w) (ttsRequest options (segment r))))]"
  by (simp add: renderOne_def probeDuration_def writeOutputFile_def Let_def
           split: prod.splits sum.splits)

lemma renderOne_Inl:
  assumes "renderOne env options r uc w = (Inl e, w')"
  obtains err where
    "fst (generateSpeech env (external w) (ttsRequest options (segment r))) = Inl err"
    "e = renderError (segment r) err"
    "files w' = files w"
  using assms
  by (auto simp: renderOne_def probeDuration_def writeOutputFile_def Let_def
           split: prod.splits sum.splits)

lemma renderOne_Inr:
  assumes "renderOne env options r uc w = (Inr (r', uc'), w')"
  obtains tts d where
    "fst (generateSpeech env (external w) (ttsRequest options (segment r))) = Inr tts"
    "files w' = (files w)(filePath r \<mapsto> Bytes (audio_data tts))"
    "r' = r\<lparr> duration := d \<rparr>"
    "uc' = uc(segmentCacheKey (segment r) \<mapsto>
              \<lparr> entry_hash = hash (segment r), entry_file = fileName r,
                entry_duration = duration_seconds tts \<rparr>)"
  using assms
  by (auto simp: renderOne_def probeDuration_def writeOutputFile_def Let_def
           split: prod.splits sum.splits)

lemma renderNew_Inr_shape:
  "renderNew env options rs uc w = (Inr (rs', uc'), w') \<Longrightarrow>
   list_all2 (\<lambda>r r'. segment r' = segment r \<and> filePath r' = filePath r
                     \<and> fileName r' = fileName r \<and> cached r' = cached r
                     \<and> (cached r \<longrightarrow> r' = r)) rs rs'"
proof (induction rs arbitrary: uc w rs' uc' w')
  case Nil
  then show ?case by simp
next
  case (Cons r rs)
  show ?case
  proof (cases "cached r")
    case True
    with Cons.prems obtain rest where
      rec: "renderNew env options rs uc w = (Inr (rest, uc'), w')" and rs': "rs' = r # rest"
      by (auto split: prod.splits sum.splits)
    from Cons.IH [OF rec] rs' show ?thesis by simp
  next
    case False
    with Cons.prems obtain r1 uc1 w1 rest where
      one: "renderOne env options r uc w = (Inr (r1, uc1), w1)" and
      rec: "renderNew env options rs uc1 w1 = (Inr (rest, uc'), w')" and rs': "rs' = r1 # rest"
      by (auto split: prod.splits sum.splits)
    from one obtain d where "r1 = r\<lparr> duration := d \<rparr>" by (rule renderOne_Inr)
    with Cons.IH [OF rec] rs' False show ?thesis by simp
  qed
qed

lemma renderNew_Inr_log:
  "renderNew env options rs uc w = (Inr (rs', uc'), w') \<Longrightarrow>
   \<exists>ext. ttsLog w' = ttsLog w @ ext
        \<and> map fst ext = map (\<lambda>r. ttsRequest options (segment r)) (misses rs)
        \<and> list_all (\<lambda>c. \<not> isl (snd c)) ext"
proof (induction rs arbitrary: uc w rs' uc' w')
  case Nil
  then show ?case by simp
next
  case (Cons r rs)
  show ?case
  proof (cases "cached r")
    case True
    with Cons.prems obtain rest where
      rec: "renderNew env options rs uc w = (Inr (rest, uc'), w')"
      by (auto split: prod.splits sum.splits)
    from Cons.IH [OF rec] True show ?thesis by simp
  next
    case False
    with Cons.prems obtain r1 uc1 w1 rest where
      one: "renderOne env options r uc w = (Inr (r1, uc1), w1)" and
      rec: "renderNew env options rs uc1 w1 = (Inr (rest, uc'), w')"
      by (auto split: prod.splits sum.splits)
    from one obtain tts where
      ok: "fst (generateSpeech env (external w) (ttsRequest options (segment r))) = Inr tts"
      by (rule renderOne_Inr)
    have l1: "ttsLog w1 = ttsLog w @ [(ttsRequest options (segment r), Inr tts)]"
      using renderOne_log [of env options r uc w] one ok by simp
    from Cons.IH [OF rec] obtain ext where
      e: "ttsLog w' = ttsLog w1 @ ext"
         "map fst ext = map (\<lambda>r. ttsRequest options (segment r)) (misses rs)"
         "list_all (\<lambda>c. \<not> isl (snd c)) ext"
      by blast
    let ?ext = "(ttsRequest options (segment r), Inr tts) # ext"
    have "ttsLog w' = ttsLog w @ ?ext" using e(1) l1 by simp
    moreover have "map fst ?ext = map (\<lambda>r. ttsRequest options (segment r)) (misses (r # rs))"
      using e(2) False by simp
    moreover have "list_all (\<lambda>c. \<not> isl (snd c)) ?ext" using e(3) by simp
    ultimately show ?thesis by blast
  qed
qed

lemma renderNew_Inr_files:
  "renderNew env options rs uc w = (Inr (rs', uc'), w') \<Longrightarrow>
   (\<forall>p. p \<notin> filePath ` set (misses rs) \<longrightarrow> files w' p = files w p)
   \<and> (\<forall>r \<in> set (misses rs). files w' (filePath r) \<noteq> None)
   \<and> (\<forall>p. files w p \<noteq> None \<longrightarrow> files w' p \<noteq> None)"
proof (induction rs arbitrary: uc w rs' uc' w')
  case Nil
  then show ?case by simp
next
  case (Cons r rs)
  show ?case
  proof (cases "cached r")
    case True
    with Cons.prems obtain rest where
      rec: "renderNew env options rs uc w = (Inr (rest, uc'), w')"
      by (auto split: prod.splits sum.splits)
    from Cons.IH [OF rec] True show ?thesis by simp
  next
    case False
    with Cons.prems obtain r1 uc1 w1 rest where
      one: "renderOne env options r uc w = (Inr (r1, uc1), w1)" and
      rec: "renderNew env options rs uc1 w1 = (Inr (rest, uc'), w')"
      by (auto split: prod.splits sum.splits)
    from one obtain b where
      f1: "files w1 = (files w)(filePath r \<mapsto> Bytes b)"
      by (rule renderOne_Inr)
    note ih = Cons.IH [OF rec]
    have a: "\<forall>p. p \<notin> filePath ` set (misses (r # rs)) \<longrightarrow> files w' p = files w p"
      using ih f1 False by simp
    have c: "\<forall>p. files w p \<noteq> None \<longrightarrow> files w' p \<noteq> None"
      using ih f1 by simp
    have "files w1 (filePath r) \<noteq> None" using f1 by simp
    with ih have "files w' (filePath r) \<noteq> None" by blast
    with ih False have b: "\<forall>r' \<in> set (misses (r # rs)). files w' (filePath r') \<noteq> None"
      by simp
    from a b c show ?thesis by blast
  qed
qed


lemma renderNew_Inr_cache:
  "renderNew env options rs uc w = (Inr (rs', uc'), w') \<Longrightarrow>
   (\<forall>k. k \<notin> (\<lambda>r. segmentCacheKey (segment r)) ` set (misses rs) \<longrightarrow> uc' k = uc k)
   \<and> (\<forall>k \<in> (\<lambda>r. segmentCacheKey (segment r)) ` set (misses rs).
         \<exists>r \<in> set (misses rs). \<exists>e. segmentCacheKey (segment r) = k \<and> uc' k = Some e
            \<and> entry_hash e = hash (segment r) \<and> entry_file e = fileName r)"
proof (induction rs arbitrary: uc w rs' uc' w')
  case Nil
  then show ?case by simp
next
  case (Cons r rs)
  let ?key = "\<lambda>r. segmentCacheKey (segment r)"
  show ?case
  proof (cases "cached r")
    case True
    with Cons.prems obtain rest where
      rec: "renderNew env options rs uc w = (Inr (rest, uc'), w')"
      by (auto split: prod.splits sum.splits)
    from Cons.IH [OF rec] True show ?thesis by simp
  next
    case False
    with Cons.prems obtain r1 uc1 w1 rest where
      one: "renderOne env options r uc w = (Inr (r1, uc1), w1)" and
      rec: "renderNew env options rs uc1 w1 = (Inr (rest, uc'), w')"
      by (auto split: prod.splits sum.splits)
    from one obtain er where
      c1: "uc1 = uc(?key r \<mapsto> er)" and
      er: "entry_hash er = hash (segment r)" "entry_file er = fileName r"
    proof (rule renderOne_Inr)
      fix tts d
      assume "uc1 = uc(segmentCacheKey (segment r) \<mapsto>
              \<lparr> entry_hash = hash (segment r), entry_file = fileName r,
                entry_duration = duration_seconds tts \<rparr>)"
      then show thesis by (intro that [of "\<lparr> entry_hash = hash (segment r),
          entry_file = fileName r, entry_duration = duration_seconds tts \<rparr>"]) simp_all
    qed
    note ih = Cons.IH [OF rec]
    have a: "\<forall>k. k \<notin> ?key ` set (misses (r # rs)) \<longrightarrow> uc' k = uc k"
      using ih c1 False by simp
    have b: "\<exists>r' \<in> set (misses (r # rs)). \<exists>e. ?key r' = k \<and> uc' k = Some e
            \<and> entry_hash e = hash (segment r') \<and> entry_file e = fileName r'"
      if k: "k \<in> ?key ` set (misses (r # rs))" for k
    proof (cases "k \<in> ?key ` set (misses rs)")
      case True
      with ih obtain r' e where "r' \<in> set (misses rs)" "?key r' = k" "uc' k = Some e"
        "entry_hash e = hash (segment r')" "entry_file e = fileName r'"
        by blast
      then show ?thesis using False by auto
    next
      case notin: False
      with k False have kr: "k = ?key r" by auto
      from notin ih have "uc' k = uc1 k" by blast
      with c1 kr have "uc' k = Some er" by simp
      with er kr False show ?thesis by auto
    qed
    from a b show ?thesis by blast
  qed
qed

lemma renderNew_Inl:
  "renderNew env options rs uc w = (Inl msg, w') \<Longrightarrow>
   \<exists>pre r post err ext.
      rs = pre @ r # post \<and> \<not> cached r
      \<and> msg = renderError (segment r) err
      \<and> ttsLog w' = ttsLog w @ ext @ [(ttsRequest options (segment r), Inl err)]
      \<and> map fst ext = map (\<lambda>r. ttsRequest options (segment r)) (misses pre)
      \<and> list_all (\<lambda>c. \<not> isl (snd c)) ext
      \<and> (\<forall>p. p \<notin> filePath ` set (misses pre) \<longrightarrow> files w' p = files w p)"
proof (induction rs arbitrary: uc w)
  case Nil
  then show ?case by simp
next
  case (Cons r rs)
  show ?case
  proof (cases "cached r")
    case True
    with Cons.prems have rec: "renderNew env options rs uc w = (Inl msg, w')"
      by (auto split: prod.splits sum.splits)
    from Cons.IH [OF rec] obtain pre r0 post err ext where
      h: "rs = pre @ r0 # post" "\<not> cached r0" "msg = renderError (segment r0) err"
         "ttsLog w' = ttsLog w @ ext @ [(ttsRequest options (segment r0), Inl err)]"
         "map fst ext = map (\<lambda>r. ttsRequest options (segment r)) (misses pre)"
         "list_all (\<lambda>c. \<not> isl (snd c)) ext"
         "\<forall>p. p \<notin> filePath ` set (misses pre) \<longrightarrow> files w' p = files w p"
      by blast
    have "r # rs = (r # pre) @ r0 # post" using h(1) by simp
    moreover have "map fst ext = map (\<lambda>r. ttsRequest options (segment r)) (misses (r # pre))"
      using h(5) True by simp
    moreover have "\<forall>p. p \<notin> filePath ` set (misses (r # pre)) \<longrightarrow> files w' p = files w p"
      using h(7) True by simp
    ultimately show ?thesis using h(2,3,4,6) by blast
  next
    case False
    show ?thesis
    proof (cases "fst (renderOne env options r uc w)")
      case (Inl e)
      then obtain w1 where one: "renderOne env options r uc w = (Inl e, w1)"
        by (cases "renderOne env options r uc w") simp
      with Cons.prems False have eq: "msg = e" "w' = w1" by simp_all
      from one obtain err where
        g: "fst (generateSpeech env (external w) (ttsRequest options (segment r))) = Inl err"
           "e = renderError (segment r) err" "files w1 = files w"
        by (rule renderOne_Inl)
      have l: "ttsLog w1 = ttsLog w @ [] @ [(ttsRequest options (segment r), Inl err)]"
        using renderOne_log [of env options r uc w] one g(1) by simp
      have "r # rs = [] @ r # rs" by simp
      moreover have "map fst [] = map (\<lambda>r. ttsRequest options (segment r)) (misses [])"
        by simp
      moreover have "list_all (\<lambda>c :: TTSRequest \<times> (string + TTSResponse). \<not> isl (snd c)) []"
        by simp
      moreover have "\<forall>p. p \<notin> filePath ` set (misses []) \<longrightarrow> files w' p = files w p"
        using eq g(3) by simp
      ultimately show ?thesis using False eq g(2) l by blast
    next
      case (Inr v)
      then obtain r1 uc1 w1 where one: "renderOne env options r uc w = (Inr (r1, uc1), w1)"
        by (cases "renderOne env options r uc w"; cases v) simp
      with Cons.prems False have rec: "renderNew env options rs uc1 w1 = (Inl msg, w')"
        by (auto split: prod.splits sum.splits)
      from one obtain tts b where
        ok: "fst (generateSpeech env (external w) (ttsRequest options (segment r))) = Inr tts"
        and f1: "files w1 = (files w)(filePath r \<mapsto> Bytes b)"
        by (rule renderOne_Inr)
      have l1: "ttsLog w1 = ttsLog w @ [(ttsRequest options (segment r), Inr tts)]"
        using renderOne_log [of env options r uc w] one ok by simp
      from Cons.IH [OF rec] obtain pre r0 post err ext where
        h: "rs = pre @ r0 # post" "\<not> cached r0" "msg = renderError (segment r0) err"
           "ttsLog w' = ttsLog w1 @ ext @ [(ttsRequest options (segment r0), Inl err)]"
           "map fst ext = map (\<lambda>r. ttsRequest options (segment r)) (misses pre)"
           "list_all (\<lambda>c. \<not> isl (snd c)) ext"
           "\<forall>p. p \<notin> filePath ` set (misses pre) \<longrightarrow> files w' p = files w1 p"
        by blast
      let ?ext = "(ttsRequest options (segment r), Inr tts) # ext"
      have "r # rs = (r # pre) @ r0 # post" using h(1) by simp
      moreover have "ttsLog w' = ttsLog w @ ?ext @ [(ttsRequest options (segment r0), Inl err)]"
        using h(4) l1 by simp
      moreover have "map fst ?ext = map (\<lambda>r. ttsRequest options (segment r)) (misses (r # pre))"
        using h(5) False by simp
      moreover have "list_all (\<lambda>c. \<not> isl (snd c)) ?ext" using h(6) by simp
      moreover have "\<forall>p. p \<notin> filePath ` set (misses (r # pre)) \<longrightarrow> files w' p = files w p"
        using h(7) f1 False by simp
      ultimately show ?thesis using h(2,3) by blast
    qed
  qed
qed

section \<open>Facts about the first loop and the files\<close>

lemma checkCache_fields [simp]:
  "segment (checkCache options cache fs seg) = seg"
  "filePath (checkCache options cache fs seg) = segmentFilePath options seg"
  "fileName (checkCache options cache fs seg) = segmentFileName seg"
  by (simp_all add: checkCache_def Let_def)

lemma checkCache_cached:
  "cached (checkCache options cache fs seg) \<longleftrightarrow>
     \<not> force options
     \<and> (\<exists>e. cache (segmentCacheKey seg) = Some e \<and> entry_hash e = hash seg
             \<and> entry_file e = segmentFileName seg)
     \<and> fileExists fs (segmentFilePath options seg)"
  by (auto simp: checkCache_def Let_def split: option.splits)

lemma checkCache_duration:
  "cached (checkCache options cache fs seg) \<Longrightarrow>
     \<exists>e. cache (segmentCacheKey seg) = Some e
        \<and> duration (checkCache options cache fs seg) = entry_duration e"
  by (auto simp: checkCache_def Let_def split: option.splits if_splits)

lemma renderNew_all_cached:
  "list_all cached rs \<Longrightarrow> renderNew env options rs uc w = (Inr (rs, uc), w)"
  by (induction rs) simp_all

lemma wav_not_manifest: "name @ ''.wav'' \<noteq> ''.cache.json''"
proof
  assume "name @ ''.wav'' = ''.cache.json''"
  then have "last (name @ ''.wav'') = last ''.cache.json''" by simp
  then show False by simp
qed

lemma manifest_path_not_audio:
  "cacheManifestPath (outputDir options) \<noteq> segmentFilePath options seg"
proof -
  have "segmentFileName seg \<noteq> ''.cache.json''"
    using wav_not_manifest [of "zeroPad (index seg) @ ''-'' @
            (if slug seg \<noteq> [] then slug seg else slugify (title seg))"]
    by (simp add: segmentFileName_def)
  then show ?thesis
    by (simp add: cacheManifestPath_def segmentFilePath_def join_def)
qed

lemma shape_misses:
  assumes "list_all2 (\<lambda>r r'. segment r' = segment r \<and> filePath r' = filePath r
                     \<and> fileName r' = fileName r \<and> cached r' = cached r
                     \<and> (cached r \<longrightarrow> r' = r)) rs rs'"
  shows "map segment (misses rs') = map segment (misses rs)"
  using assms by (induction rule: list_all2_induct) simp_all

lemma loadCacheManifest_saved:
  "loadCacheManifest (files (saveCacheManifest dir m w)) dir = m"
  by (simp add: loadCacheManifest_def saveCacheManifest_def writeOutputFile_def)

lemma saveCacheManifest_log [simp]:
  "ttsLog (saveCacheManifest dir m w) = ttsLog w"
  by (simp add: saveCacheManifest_def writeOutputFile_def)

lemma renderSegments_Inr:
  assumes "renderSegments env options segs w = (Inr results, w')"
  obtains uc' w0 where
    "renderNew env options (map (checkCache options (initialCache options (files w)) (files w)) segs)
        (initialCache options (files w)) w = (Inr (results, uc'), w0)"
    "w' = saveCacheManifest (outputDir options) uc' w0"
  using assms by (auto simp: renderSegments_def Let_def split: prod.splits sum.splits)

lemma renderSegments_Inl:
  assumes "renderSegments env options segs w = (Inl msg, w')"
  shows "renderNew env options (map (checkCache options (initialCache options (files w)) (files w)) segs)
        (initialCache options (files w)) w = (Inl msg, w')"
  using assms by (auto simp: renderSegments_def Let_def split: prod.splits sum.splits)

lemma misses_map:
  "misses (map f xs) = map f (filter (\<lambda>x. \<not> cached (f x)) xs)"
  by (simp add: misses_def filter_map comp_def)

lemma replicate_small:
  "replicate 1 c = [c]" "replicate 2 c = [c, c]" "replicate 3 c = [c, c, c]"
  by (simp_all add: numeral_2_eq_2 numeral_3_eq_3)

lemmas eval_defs = renderSegments_def initialCache_def loadCacheManifest_def
  cacheManifestPath_def join_def checkCache_def segmentCacheKey_def segmentFileName_def
  segmentFilePath_def zeroPad_def padStart_def fileExists_def renderOne_def ttsRequest_def
  renderError_def writeOutputFile_def probeDuration_def saveCacheManifest_def
  exampleClient_def exampleOptions_def warmWorld_def emptyWorld_def twoSegments_def
  exampleSegment_def slugify_def toLowerCase_def isSlugChar_def isCacheHit_def Let_def
  replicate_small

section \<open>Timeline assembly\<close>

lemma timelineLoop_three:
  "timelineLoop c [r1, r2, r3] =
     ([\<lparr> tl_index = index (segment r1), tl_title = title (segment r1), start_seconds = c,
          tl_duration_seconds = duration r1, end_seconds = c + duration r1 \<rparr>,
       \<lparr> tl_index = index (segment r2), tl_title = title (segment r2),
          start_seconds = c + duration r1,
          tl_duration_seconds = duration r2, end_seconds = c + duration r1 + duration r2 \<rparr>,
       \<lparr> tl_index = index (segment r3), tl_title = title (segment r3),
          start_seconds = c + duration r1 + duration r2,
          tl_duration_seconds = duration r3,
          end_seconds = c + duration r1 + duration r2 + duration r3 \<rparr>],
      c + duration r1 + duration r2 + duration r3)"
  by simp

lemma has_durations_buildTimeline:
  "has_durations (buildTimeline results) = list_all (\<lambda>r. duration r > 0) results"
  by (simp add: buildTimeline_def split: prod.splits)

lemma zero_duration_no_durations:
  assumes "r \<in> set results" and "duration r = 0"
  shows "\<not> has_durations (buildTimeline results)"
proof -
  have "\<not> duration r > 0" using assms(2) by simp
  with assms(1) have "\<not> list_all (\<lambda>r. duration r > 0) results"
    unfolding list_all_iff by blast
  then show ?thesis by (simp add: has_durations_buildTimeline)
qed

lemma timelineLoop_fold:
  "length (fst (timelineLoop c rs)) = length rs
   \<and> snd (timelineLoop c rs) = foldl (+) c (map duration rs)
   \<and> (\<forall>i < length rs.
         fst (timelineLoop c rs) ! i =
           \<lparr> tl_index = index (segment (rs ! i)),
             tl_title = title (segment (rs ! i)),
             start_seconds = foldl (+) c (map duration (take i rs)),
             tl_duration_seconds = duration (rs ! i),
             end_seconds = foldl (+) c (map duration (take i rs)) + duration (rs ! i) \<rparr>)"
proof (induction rs arbitrary: c)
  case Nil
  show ?case by simp
next
  case (Cons r rs)
  note ih = Cons.IH [of "c + duration r"]
  have unfold: "timelineLoop c (r # rs) =
      (\<lparr> tl_index = index (segment r), tl_title = title (segment r), start_seconds = c,
         tl_duration_seconds = duration r, end_seconds = c + duration r \<rparr>
         # fst (timelineLoop (c + duration r) rs),
       snd (timelineLoop (c + duration r) rs))"
    by (simp add: Let_def split: prod.splits)
  have len: "length (fst (timelineLoop c (r # rs))) = length (r # rs)"
    unfolding unfold using ih by simp
  have fin: "snd (timelineLoop c (r # rs)) = foldl (+) c (map duration (r # rs))"
    unfolding unfold using ih by simp
  have nth: "fst (timelineLoop c (r # rs)) ! i =
           \<lparr> tl_index = index (segment ((r # rs) ! i)),
             tl_title = title (segment ((r # rs) ! i)),
             start_seconds = foldl (+) c (map duration (take i (r # rs))),
             tl_duration_seconds = duration ((r # rs) ! i),
             end_seconds = foldl (+) c (map duration (take i (r # rs))) + duration ((r # rs) ! i) \<rparr>"
    if i: "i < length (r # rs)" for i
  proof (cases i)
    case 0
    then show ?thesis unfolding unfold by simp
  next
    case (Suc j)
    with i have "j < length rs" by simp
    with ih have "fst (timelineLoop (c + duration r) rs) ! j =
           \<lparr> tl_index = index (segment (rs ! j)),
             tl_title = title (segment (rs ! j)),
             start_seconds = foldl (+) (c + duration r) (map duration (take j rs)),
             tl_duration_seconds = duration (rs ! j),
             end_seconds = foldl (+) (c + duration r) (map duration (take j rs)) + duration (rs ! j) \<rparr>"
      by blast
    then show ?thesis unfolding unfold Suc by simp
  qed
  from len fin nth show ?case by blast
qed

lemma buildTimeline_parts:
  "segments (buildTimeline results) = fst (timelineLoop 0 results)"
  "total_duration_seconds (buildTimeline results) = snd (timelineLoop 0 results)"
  by (simp_all add: buildTimeline_def split: prod.splits)

text \<open>
  Claim C10. \<open>buildTimeline\<close> of the empty results list has no entries, total duration 0
  and \<open>has_durations = true\<close>; \<open>buildChapters\<close> of that timeline is the empty string, not
  null.
\<close>

theorem buildTimeline_empty:
  "buildTimeline [] = \<lparr> segments = [], total_duration_seconds = 0, has_durations = True \<rparr>
   \<and> buildChapters (buildTimeline []) = Some ''''"
  by (simp add: buildTimeline_def buildChapters_def)

text \<open>
  Claim C8. \<open>buildTimeline\<close> folds the durations with a cumulative offset that starts at
  0: for every results list, entry \<open>i\<close> starts at the left-to-right sum of the durations
  before it, lasts the duration of result \<open>i\<close> and ends at its start plus that duration;
  the total is the sum of all durations, and \<open>has_durations\<close> says that every duration is
  positive. On results whose durations are 2.0, 3.5 and 1.0 the entries start at
  0, 2.0 and 5.5 and end at 2.0, 5.5 and 6.5, the total is 6.5 and \<open>has_durations\<close> holds
  (these values and their sums are exact in binary floating point; in general the sums
  here are sums of reals, taken in the order in which the program adds its doubles).
  Whenever some result has duration 0, \<open>has_durations\<close> is false and both \<open>buildChapters\<close>
  and \<open>buildCaptionsSrt\<close> return null.
\<close>

theorem buildTimeline_offsets_and_withholding:
  "(\<forall>results.
      length (segments (buildTimeline results)) = length results
      \<and> (\<forall>i < length results.
            tl_index (segments (buildTimeline results) ! i) = index (segment (results ! i))
            \<and> tl_title (segments (buildTimeline results) ! i) = title (segment (results ! i))
            \<and> start_seconds (segments (buildTimeline results) ! i)
                 = foldl (+) 0 (map duration (take i results))
            \<and> tl_duration_seconds (segments (buildTimeline results) ! i) = duration (results ! i)
            \<and> end_seconds (segments (buildTimeline results) ! i)
                 = start_seconds (segments (buildTimeline results) ! i) + duration (results ! i))
      \<and> total_duration_seconds (buildTimeline results) = foldl (+) 0 (map duration results)
      \<and> has_durations (buildTimeline results) = list_all (\<lambda>r. duration r > 0) results)
   \<and> (\<forall>results. map duration results = [2, 7 / 2, 1] \<longrightarrow>
      map start_seconds (segments (buildTimeline results)) = [0, 2, 11 / 2]
      \<and> map end_seconds (segments (buildTimeline results)) = [2, 11 / 2, 13 / 2]
      \<and> total_duration_seconds (buildTimeline results) = 13 / 2
      \<and> has_durations (buildTimeline results))
   \<and> (\<forall>results segs. (\<exists>r \<in> set results. duration r = 0) \<longrightarrow>
      \<not> has_durations (buildTimeline results)
      \<and> buildChapters (buildTimeline results) = None
      \<and> buildCaptionsSrt (buildTimeline results) segs = None)"
proof (intro conjI allI impI)
  fix results :: "RenderResult list"
  note f = timelineLoop_fold [of 0 results]
  show "length (segments (buildTimeline results)) = length results"
    unfolding buildTimeline_parts using f by simp
  show "total_duration_seconds (buildTimeline results) = foldl (+) 0 (map duration results)"
    unfolding buildTimeline_parts using f by simp
  show "has_durations (buildTimeline results) = list_all (\<lambda>r. duration r > 0) results"
    by (rule has_durations_buildTimeline)
  fix i assume i: "i < length results"
  with f have e: "fst (timelineLoop 0 results) ! i =
           \<lparr> tl_index = index (segment (results ! i)),
             tl_title = title (segment (results ! i)),
             start_seconds = foldl (+) 0 (map duration (take i results)),
             tl_duration_seconds = duration (results ! i),
             end_seconds = foldl (+) 0 (map duration (take i results)) + duration (results ! i) \<rparr>"
    by blast
  show "tl_index (segments (buildTimeline results) ! i) = index (segment (results ! i))"
    unfolding buildTimeline_parts e by simp
  show "tl_title (segments (buildTimeline results) ! i) = title (segment (results ! i))"
    unfolding buildTimeline_parts e by simp
  show "start_seconds (segments (buildTimeline results) ! i)
          = foldl (+) 0 (map duration (take i results))"
    unfolding buildTimeline_parts e by simp
  show "tl_duration_seconds (segments (buildTimeline results) ! i) = duration (results ! i)"
    unfolding buildTimeline_parts e by simp
  show "end_seconds (segments (buildTimeline results) ! i)
          = start_seconds (segments (buildTimeline results) ! i) + duration (results ! i)"
    unfolding buildTimeline_parts e by simp
next
  fix results :: "RenderResult list"
  assume d: "map duration results = [2, 7 / 2, 1]"
  then obtain r1 r2 r3 where rs: "results = [r1, r2, r3]"
    and d1: "duration r1 = 2" and d2: "duration r2 = 7 / 2" and d3: "duration r3 = 1"
    by auto
  show "map start_seconds (segments (buildTimeline results)) = [0, 2, 11 / 2]"
    unfolding rs buildTimeline_def timelineLoop_three by (simp add: d1 d2 d3)
  show "map end_seconds (segments (buildTimeline results)) = [2, 11 / 2, 13 / 2]"
    unfolding rs buildTimeline_def timelineLoop_three by (simp add: d1 d2 d3)
  show "total_duration_seconds (buildTimeline results) = 13 / 2"
    unfolding rs buildTimeline_def timelineLoop_three by (simp add: d1 d2 d3)
  show "has_durations (buildTimeline results)"
    by (simp add: has_durations_buildTimeline rs d1 d2 d3)
next
  fix results :: "RenderResult list" and segs :: "Segment list"
  assume "\<exists>r \<in> set results. duration r = 0"
  then obtain r where "r \<in> set results" and "duration r = 0" by blast
  then have no: "\<not> has_durations (buildTimeline results)"
    by (rule zero_duration_no_durations)
  show "\<not> has_durations (buildTimeline results)" by (rule no)
  show "buildChapters (buildTimeline results) = None"
    using no by (simp add: buildChapters_def)
  show "buildCaptionsSrt (buildTimeline results) segs = None"
    using no by (simp add: buildCaptionsSrt_def)
qed

theorem buildTimeline_offsets_and_withholding_witness:
  "map start_seconds (segments (buildTimeline
      [exampleResult (exampleSegment 1 ''Intro'' ''Hello.'' ''h1'') 2,
       exampleResult (exampleSegment 2 ''Body'' ''Main part.'' ''h2'') (7 / 2),
       exampleResult (exampleSegment 3 ''End'' ''Bye.'' ''h3'') 1])) = [0, 2, 11 / 2]
   \<and> total_duration_seconds (buildTimeline
      [exampleResult (exampleSegment 1 ''Intro'' ''Hello.'' ''h1'') 2,
       exampleResult (exampleSegment 2 ''Body'' ''Main part.'' ''h2'') (7 / 2),
       exampleResult (exampleSegment 3 ''End'' ''Bye.'' ''h3'') 1]) = 13 / 2
   \<and> end_seconds (segments (buildTimeline
      [exampleResult (exampleSegment 1 ''Intro'' ''Hello.'' ''h1'') (1 / 4),
       exampleResult (exampleSegment 2 ''Body'' ''Main part.'' ''h2'') (1 / 2)]) ! 1) = 3 / 4
   \<and> buildChapters (buildTimeline
      [exampleResult (exampleSegment 1 ''Intro'' ''Hello.'' ''h1'') 2,
       exampleResult (exampleSegment 2 ''Body'' ''Main part.'' ''h2'') 0]) = None
   \<and> buildCaptionsSrt (buildTimeline
      [exampleResult (exampleSegment 1 ''Intro'' ''Hello.'' ''h1'') 2,
       exampleResult (exampleSegment 2 ''Body'' ''Main part.'' ''h2'') 0])
      [exampleSegment 1 ''Intro'' ''Hello.'' ''h1'',
       exampleSegment 2 ''Body'' ''Main part.'' ''h2''] = None"
proof -
  let ?three = "[exampleResult (exampleSegment 1 ''Intro'' ''Hello.'' ''h1'') 2,
       exampleResult (exampleSegment 2 ''Body'' ''Main part.'' ''h2'') (7 / 2),
       exampleResult (exampleSegment 3 ''End'' ''Bye.'' ''h3'') 1]"
  let ?two = "[exampleResult (exampleSegment 1 ''Intro'' ''Hello.'' ''h1'') (1 / 4),
       exampleResult (exampleSegment 2 ''Body'' ''Main part.'' ''h2'') (1 / 2)]"
  let ?zero = "[exampleResult (exampleSegment 1 ''Intro'' ''Hello.'' ''h1'') 2,
       exampleResult (exampleSegment 2 ''Body'' ''Main part.'' ''h2'') 0]"
  have d: "map duration ?three = [2, 7 / 2, 1]"
    by (simp add: exampleResult_def)
  have z: "\<exists>r \<in> set ?zero. duration r = 0"
    by (simp add: exampleResult_def)
  have i: "(1::nat) < length ?two" by simp
  note g = buildTimeline_offsets_and_withholding
             [THEN conjunct1, rule_format, of ?two, THEN conjunct2, THEN conjunct1, rule_format, OF i]
  note a = buildTimeline_offsets_and_withholding [THEN conjunct2, THEN conjunct1, rule_format, OF d]
  note b = buildTimeline_offsets_and_withholding [THEN conjunct2, THEN conjunct2, rule_format, OF z]
  from g have e: "end_seconds (segments (buildTimeline ?two) ! 1) = 3 / 4"
    by (simp add: exampleResult_def)
  from a b e show ?thesis by simp
qed

section \<open>Cache decisions of a render pass\<close>

text \<open>
  Claim C1. In a pass of \<open>renderSegments\<close> that returns, the result of every segment of
  the input list is marked cached exactly when \<open>force\<close> is off, the loaded manifest has an
  entry under the segment's key whose hash is the segment's hash and whose file name is
  the computed file name, and the computed file path exists on disk. A cached result
  carries the duration of that entry, and the TTS calls of the pass are, in order, the
  requests of the results that are not cached: none is made for a cache hit.
\<close>

theorem renderSegments_cache_hit_iff:
  assumes run: "renderSegments env options segs w = (Inr results, w')"
  shows "length results = length segs
    \<and> (\<forall>i < length segs.
          segment (results ! i) = segs ! i
          \<and> (cached (results ! i) \<longleftrightarrow>
               \<not> force options
               \<and> (\<exists>e. loadCacheManifest (files w) (outputDir options) (segmentCacheKey (segs ! i)) = Some e
                      \<and> entry_hash e = hash (segs ! i)
                      \<and> entry_file e = segmentFileName (segs ! i))
               \<and> fileExists (files w) (segmentFilePath options (segs ! i)))
          \<and> (cached (results ! i) \<longrightarrow>
               (\<exists>e. loadCacheManifest (files w) (outputDir options) (segmentCacheKey (segs ! i)) = Some e
                      \<and> duration (results ! i) = entry_duration e)))
    \<and> (\<exists>calls. ttsLog w' = ttsLog w @ calls
          \<and> map fst calls = map (\<lambda>r. ttsRequest options (segment r)) (misses results))"
proof -
  let ?cache = "initialCache options (files w)"
  let ?rs = "map (checkCache options ?cache (files w)) segs"
  from run obtain uc' w0 where
    loop: "renderNew env options ?rs ?cache w = (Inr (results, uc'), w0)" and
    w': "w' = saveCacheManifest (outputDir options) uc' w0"
    by (rule renderSegments_Inr)
  note shape = renderNew_Inr_shape [OF loop]
  have len: "length results = length segs"
    using list_all2_lengthD [OF shape] by simp
  have per: "segment (results ! i) = segs ! i
          \<and> (cached (results ! i) \<longleftrightarrow>
               \<not> force options
               \<and> (\<exists>e. loadCacheManifest (files w) (outputDir options) (segmentCacheKey (segs ! i)) = Some e
                      \<and> entry_hash e = hash (segs ! i)
                      \<and> entry_file e = segmentFileName (segs ! i))
               \<and> fileExists (files w) (segmentFilePath options (segs ! i)))
          \<and> (cached (results ! i) \<longrightarrow>
               (\<exists>e. loadCacheManifest (files w) (outputDir options) (segmentCacheKey (segs ! i)) = Some e
                      \<and> duration (results ! i) = entry_duration e))"
    if i: "i < length segs" for i
  proof -
    let ?r = "checkCache options ?cache (files w) (segs ! i)"
    from i have ri: "?rs ! i = ?r" by simp
    from i have "i < length ?rs" by simp
    from list_all2_nthD [OF shape this] ri
    have s: "segment (results ! i) = segs ! i" and c: "cached (results ! i) = cached ?r"
      and same: "cached ?r \<longrightarrow> results ! i = ?r"
      by simp_all
    have hit: "cached ?r \<longleftrightarrow>
               \<not> force options
               \<and> (\<exists>e. loadCacheManifest (files w) (outputDir options) (segmentCacheKey (segs ! i)) = Some e
                      \<and> entry_hash e = hash (segs ! i)
                      \<and> entry_file e = segmentFileName (segs ! i))
               \<and> fileExists (files w) (segmentFilePath options (segs ! i))"
      unfolding checkCache_cached by (auto simp: initialCache_def)
    have dur: "\<exists>e. loadCacheManifest (files w) (outputDir options) (segmentCacheKey (segs ! i)) = Some e
                      \<and> duration (results ! i) = entry_duration e"
      if "cached (results ! i)"
    proof -
      from that c have cr: "cached ?r" by simp
      with same have eq: "results ! i = ?r" by simp
      from cr hit have "\<not> force options" by simp
      then have "?cache = loadCacheManifest (files w) (outputDir options)"
        by (simp add: initialCache_def)
      with checkCache_duration [OF cr] eq show ?thesis by simp
    qed
    from s c hit dur show ?thesis by blast
  qed
  from renderNew_Inr_log [OF loop] obtain calls where
    l: "ttsLog w0 = ttsLog w @ calls"
       "map fst calls = map (\<lambda>r. ttsRequest options (segment r)) (misses ?rs)"
    by blast
  have "map (\<lambda>r. ttsRequest options (segment r)) (misses ?rs)
        = map (ttsRequest options) (map segment (misses ?rs))"
    by simp
  also have "\<dots> = map (ttsRequest options) (map segment (misses results))"
    using shape_misses [OF shape] by simp
  finally have "map fst calls = map (\<lambda>r. ttsRequest options (segment r)) (misses results)"
    using l(2) by simp
  with l(1) w' have "\<exists>calls. ttsLog w' = ttsLog w @ calls
          \<and> map fst calls = map (\<lambda>r. ttsRequest options (segment r)) (misses results)"
    by auto
  with len per show ?thesis by blast
qed

theorem renderSegments_cache_hit_iff_witness:
  "\<exists>results w'.
     renderSegments exampleClient exampleOptions twoSegments warmWorld = (Inr results, w')
     \<and> length results = 2
     \<and> cached (results ! 0) \<and> duration (results ! 0) = 3
     \<and> \<not> cached (results ! 1)
     \<and> map fst (ttsLog w') = [ttsRequest exampleOptions (twoSegments ! 1)]"
proof -
  obtain out w' where run0: "renderSegments exampleClient exampleOptions twoSegments warmWorld = (out, w')"
    by (cases "renderSegments exampleClient exampleOptions twoSegments warmWorld")
  have "\<not> isl (fst (renderSegments exampleClient exampleOptions twoSegments warmWorld))"
    by (simp add: eval_defs)
  with run0 obtain results where
    run: "renderSegments exampleClient exampleOptions twoSegments warmWorld = (Inr results, w')"
    by (cases out) simp_all
  note t = renderSegments_cache_hit_iff [OF run]
  have len: "length results = 2" using t by (simp add: twoSegments_def)
  have l0: "ttsLog warmWorld = []" by (simp add: warmWorld_def)
  have hit: "cached (results ! 0)"
    using t [THEN conjunct2, THEN conjunct1, rule_format, of 0]
    by (simp add: eval_defs)
  have miss: "\<not> cached (results ! 1)"
    using t [THEN conjunct2, THEN conjunct1, rule_format, of 1]
    by (simp add: eval_defs)
  have dur: "duration (results ! 0) = 3"
    using t [THEN conjunct2, THEN conjunct1, rule_format, of 0] hit
    by (simp add: eval_defs)
  from len obtain r0 r1 where rs: "results = [r0, r1]"
    by (cases results; cases "tl results"; cases "tl (tl results)") auto
  from t obtain calls where
    c: "ttsLog w' = ttsLog warmWorld @ calls"
       "map fst calls = map (\<lambda>r. ttsRequest exampleOptions (segment r)) (misses results)"
    by blast
  have seg1: "segment (results ! 1) = twoSegments ! 1"
    using t [THEN conjunct2, THEN conjunct1, rule_format, of 1] by (simp add: twoSegments_def)
  have "misses results = [results ! 1]" using rs hit miss by (simp add: misses_def)
  with c l0 seg1 have calls: "map fst (ttsLog w') = [ttsRequest exampleOptions (twoSegments ! 1)]"
    by simp
  have "renderSegments exampleClient exampleOptions twoSegments warmWorld = (Inr results, w')
     \<and> length results = 2
     \<and> cached (results ! 0) \<and> duration (results ! 0) = 3
     \<and> \<not> cached (results ! 1)
     \<and> map fst (ttsLog w') = [ttsRequest exampleOptions (twoSegments ! 1)]"
    by (intro conjI run len hit dur miss calls)
  then show ?thesis by - (rule exI, rule exI, assumption)
qed

section \<open>The duration recorded in the cache\<close>

text \<open>
  Claim C2 says that the cache entry written for a newly rendered segment records the
  same duration as the returned result: the probed duration when the probe succeeds. The
  code fills the result with \<open>probed ?? ttsResponse.duration_seconds\<close> under the comment
  "Get accurate duration from ffprobe if available, else use API estimate", but writes
  \<open>ttsResponse.duration_seconds\<close> into the entry. With a client that estimates 2 seconds
  and a probe that measures 2.5 seconds, the result of the segment carries 2.5 and the
  saved entry 2 (hash and file name are recorded as the claim says).
\<close>

theorem cache_entry_duration_differs_from_result:
  "fst (renderSegments exampleClient exampleOptions
          [exampleSegment 2 ''Body'' ''Main part.'' ''h2''] emptyWorld)
     = Inr [\<lparr> segment = exampleSegment 2 ''Body'' ''Main part.'' ''h2'',
              filePath = ''out/segments/002-body.wav'', fileName = ''002-body.wav'',
              cached = False, duration = 5 / 2 \<rparr>]
   \<and> loadCacheManifest (files (snd (renderSegments exampleClient exampleOptions
          [exampleSegment 2 ''Body'' ''Main part.'' ''h2''] emptyWorld))) ''out'' ''002-body''
     = Some \<lparr> entry_hash = ''h2'', entry_file = ''002-body.wav'', entry_duration = 2 \<rparr>"
  by (simp add: eval_defs)

section \<open>A failing synthesis aborts the pass\<close>

lemma title_in_renderError: "sublist (title seg) (renderError seg err)"
  unfolding renderError_def sublist_def by (metis append.assoc)

lemma renderSegments_Inr_log:
  assumes "renderSegments env options segs w = (Inr results, w')"
  shows "\<exists>calls. ttsLog w' = ttsLog w @ calls \<and> list_all (\<lambda>c. \<not> isl (snd c)) calls"
proof -
  from assms obtain uc' w0 where
    loop: "renderNew env options
        (map (checkCache options (initialCache options (files w)) (files w)) segs)
        (initialCache options (files w)) w = (Inr (results, uc'), w0)" and
    w': "w' = saveCacheManifest (outputDir options) uc' w0"
    by (rule renderSegments_Inr)
  from renderNew_Inr_log [OF loop] w' show ?thesis by auto
qed

text \<open>
  Claim C3. If a TTS call of the pass fails, the pass ends with the error
  \<open>Failed to render segment "<title>": <err>\<close> for the segment \<open>s\<close> whose call failed. The
  calls of the pass are those of the cache misses before \<open>s\<close>, all successful, and then
  the failed one: no segment after \<open>s\<close> is synthesized. Only audio files of segments
  before \<open>s\<close> are written, and the manifest file is what it was before the pass.
\<close>

theorem renderSegments_failure_aborts:
  assumes run: "renderSegments env options segs w = (out, w')"
    and failed: "\<exists>c \<in> set (drop (length (ttsLog w)) (ttsLog w')). isl (snd c)"
  shows "\<exists>pre s post err calls.
      segs = pre @ s # post
      \<and> out = Inl (renderError s err)
      \<and> sublist (title s) (renderError s err)
      \<and> ttsLog w' = ttsLog w @ calls @ [(ttsRequest options s, Inl err)]
      \<and> map fst calls = map (ttsRequest options) (filter (\<lambda>s. \<not> isCacheHit options (files w) s) pre)
      \<and> list_all (\<lambda>c. \<not> isl (snd c)) calls
      \<and> (\<forall>p. files w' p \<noteq> files w p \<longrightarrow> p \<in> segmentFilePath options ` set pre)
      \<and> files w' (cacheManifestPath (outputDir options))
          = files w (cacheManifestPath (outputDir options))"
proof (cases out)
  case (Inr results)
  with run have "\<exists>calls. ttsLog w' = ttsLog w @ calls \<and> list_all (\<lambda>c. \<not> isl (snd c)) calls"
    by (simp add: renderSegments_Inr_log)
  then obtain calls where "ttsLog w' = ttsLog w @ calls" "list_all (\<lambda>c. \<not> isl (snd c)) calls"
    by blast
  with failed have False by (auto simp: list_all_iff)
  then show ?thesis ..
next
  case (Inl msg)
  let ?cc = "checkCache options (initialCache options (files w)) (files w)"
  from run Inl have loop: "renderNew env options (map ?cc segs) (initialCache options (files w)) w
      = (Inl msg, w')"
    by (simp add: renderSegments_Inl)
  from renderNew_Inl [OF loop] obtain pre' r post' err calls where
    h: "map ?cc segs = pre' @ r # post'" "\<not> cached r" "msg = renderError (segment r) err"
       "ttsLog w' = ttsLog w @ calls @ [(ttsRequest options (segment r), Inl err)]"
       "map fst calls = map (\<lambda>r. ttsRequest options (segment r)) (misses pre')"
       "list_all (\<lambda>c. \<not> isl (snd c)) calls"
       "\<forall>p. p \<notin> filePath ` set (misses pre') \<longrightarrow> files w' p = files w p"
    by blast
  from h(1) obtain pre s post where
    d: "segs = pre @ s # post" "pre' = map ?cc pre" "r = ?cc s"
    by (auto simp: map_eq_append_conv map_eq_Cons_conv)
  have seg: "segment r = s" using d(3) by simp
  have calls: "map fst calls = map (ttsRequest options) (filter (\<lambda>s. \<not> isCacheHit options (files w) s) pre)"
    using h(5) unfolding d(2) misses_map by (simp add: isCacheHit_def comp_def)
  have sub: "filePath ` set (misses pre') \<subseteq> segmentFilePath options ` set pre"
    unfolding d(2) misses_map by auto
  have frame: "\<forall>p. files w' p \<noteq> files w p \<longrightarrow> p \<in> segmentFilePath options ` set pre"
    using h(7) sub by blast
  have "cacheManifestPath (outputDir options) \<notin> segmentFilePath options ` set pre"
    using manifest_path_not_audio by blast
  with frame have man: "files w' (cacheManifestPath (outputDir options))
          = files w (cacheManifestPath (outputDir options))"
    by blast
  have "segs = pre @ s # post
      \<and> out = Inl (renderError s err)
      \<and> sublist (title s) (renderError s err)
      \<and> ttsLog w' = ttsLog w @ calls @ [(ttsRequest options s, Inl err)]
      \<and> map fst calls = map (ttsRequest options) (filter (\<lambda>s. \<not> isCacheHit options (files w) s) pre)
      \<and> list_all (\<lambda>c. \<not> isl (snd c)) calls
      \<and> (\<forall>p. files w' p \<noteq> files w p \<longrightarrow> p \<in> segmentFilePath options ` set pre)
      \<and> files w' (cacheManifestPath (outputDir options))
          = files w (cacheManifestPath (outputDir options))"
    using d(1) Inl h(3) h(4) seg title_in_renderError calls h(6) frame man by simp
  then show ?thesis by blast
qed

lemma failing_run:
  "renderSegments exampleClient exampleOptions failingSegments emptyWorld =
     (Inl (renderError (exampleSegment 2 ''Body'' ''FAIL'' ''h2'') ''Error: rate limited''),
      \<lparr> external = 2,
        files = [''out/segments/001-intro.wav'' \<mapsto> Bytes [82, 73, 70, 70]],
        ttsLog = [(ttsRequest exampleOptions (exampleSegment 1 ''Intro'' ''Hello.'' ''h1''),
                   Inr \<lparr> audio_data = [82, 73, 70, 70], duration_seconds = 2,
                      sample_rate = 24, format = ''wav'' \<rparr>),
                  (ttsRequest exampleOptions (exampleSegment 2 ''Body'' ''FAIL'' ''h2''),
                   Inl ''Error: rate limited'')] \<rparr>)"
  by (simp add: eval_defs failingSegments_def)

theorem renderSegments_failure_aborts_witness:
  "\<exists>pre s post err calls.
      failingSegments = pre @ s # post
      \<and> fst (renderSegments exampleClient exampleOptions failingSegments emptyWorld)
           = Inl (renderError s err)
      \<and> sublist (title s) (renderError s err)
      \<and> ttsLog (snd (renderSegments exampleClient exampleOptions failingSegments emptyWorld))
           = calls @ [(ttsRequest exampleOptions s, Inl err)]
      \<and> length calls = 1
      \<and> files (snd (renderSegments exampleClient exampleOptions failingSegments emptyWorld))
           (cacheManifestPath ''out'') = None"
proof -
  let ?run = "renderSegments exampleClient exampleOptions failingSegments emptyWorld"
  have run: "?run = (fst ?run, snd ?run)" by simp
  have failed: "\<exists>c \<in> set (drop (length (ttsLog emptyWorld)) (ttsLog (snd ?run))). isl (snd c)"
    unfolding failing_run by (simp add: emptyWorld_def)
  from renderSegments_failure_aborts [OF run failed] obtain pre s post err calls where
    h: "failingSegments = pre @ s # post"
       "fst ?run = Inl (renderError s err)"
       "sublist (title s) (renderError s err)"
       "ttsLog (snd ?run) = ttsLog emptyWorld @ calls @ [(ttsRequest exampleOptions s, Inl err)]"
       "files (snd ?run) (cacheManifestPath (outputDir exampleOptions))
          = files emptyWorld (cacheManifestPath (outputDir exampleOptions))"
    by blast
  from h(4) have log: "ttsLog (snd ?run) = calls @ [(ttsRequest exampleOptions s, Inl err)]"
    by (simp add: emptyWorld_def)
  from h(4) have one: "length calls = 1" unfolding failing_run by (auto simp: emptyWorld_def)
  from h(5) have man: "files (snd ?run) (cacheManifestPath ''out'') = None"
    by (simp add: emptyWorld_def exampleOptions_def)
  have "failingSegments = pre @ s # post
      \<and> fst ?run = Inl (renderError s err)
      \<and> sublist (title s) (renderError s err)
      \<and> ttsLog (snd ?run) = calls @ [(ttsRequest exampleOptions s, Inl err)]
      \<and> length calls = 1
      \<and> files (snd ?run) (cacheManifestPath ''out'') = None"
    by (intro conjI h(1) h(2) h(3) log one man)
  then show ?thesis by - (rule exI, rule exI, rule exI, rule exI, rule exI, assumption)
qed

section \<open>Cache keys of numbered segments\<close>

text \<open>
  A cache key starts with the decimal index and a dash, so segments with distinct indices
  have distinct keys. \<open>chunkScript\<close> numbers its segments 1, 2, ..., so the indices,
  and with them the keys, of the list it hands to \<open>renderSegments\<close> are pairwise distinct.
\<close>

lemma digits_table:
  "list_all (\<lambda>d. digitValue (''0123456789'' ! d) = d \<and> ''0123456789'' ! d \<noteq> CHR ''-'') [0 ..< 10]"
  by code_simp

lemma digit_facts:
  assumes "d < 10"
  shows "digitValue (''0123456789'' ! d) = d" and "''0123456789'' ! d \<noteq> CHR ''-''"
proof -
  from assms have "d \<in> set [0 ..< 10]" by simp
  with digits_table have "digitValue (''0123456789'' ! d) = d \<and> ''0123456789'' ! d \<noteq> CHR ''-''"
    unfolding list_all_iff by blast
  then show "digitValue (''0123456789'' ! d) = d" and "''0123456789'' ! d \<noteq> CHR ''-''"
    by simp_all
qed

lemma decimalValue_snoc: "decimalValue (s @ [c]) = 10 * decimalValue s + digitValue c"
  by (simp add: decimalValue_def)

lemma numberToString_small: "n < 10 \<Longrightarrow> numberToString n = [''0123456789'' ! n]"
  by (subst numberToString.simps) (simp del: numberToString.simps)

lemma numberToString_large:
  "\<not> n < 10 \<Longrightarrow>
     numberToString n = numberToString (n div 10) @ [''0123456789'' ! (n mod 10)]"
  by (subst numberToString.simps) (simp del: numberToString.simps)

lemma decimalValue_numberToString: "decimalValue (numberToString n) = n"
proof (induction n rule: numberToString.induct)
  case (1 n)
  show ?case
  proof (cases "n < 10")
    case True
    have "decimalValue [''0123456789'' ! n] = digitValue (''0123456789'' ! n)"
      by (simp add: decimalValue_def)
    with digit_facts(1) [OF True] show ?thesis
      unfolding numberToString_small [OF True] by simp
  next
    case False
    have "n mod 10 < 10" by simp
    from digit_facts(1) [OF this] 1 [OF False] show ?thesis
      unfolding numberToString_large [OF False] decimalValue_snoc by simp
  qed
qed

lemma numberToString_no_dash: "CHR ''-'' \<notin> set (numberToString n)"
proof (induction n rule: numberToString.induct)
  case (1 n)
  show ?case
  proof (cases "n < 10")
    case True
    from digit_facts(2) [OF True] show ?thesis
      unfolding numberToString_small [OF True] by simp
  next
    case False
    have "n mod 10 < 10" by simp
    from digit_facts(2) [OF this] 1 [OF False] show ?thesis
      unfolding numberToString_large [OF False] by simp
  qed
qed

lemma decimalValue_zeros: "decimalValue (replicate k (CHR ''0'') @ s) = decimalValue s"
proof -
  have z: "digitValue (CHR ''0'') = 0" by code_simp
  have "foldl (\<lambda>a c. 10 * a + digitValue c) 0 (replicate k (CHR ''0'')) = 0"
    by (induction k) (simp_all add: z)
  then show ?thesis by (simp add: decimalValue_def)
qed

lemma keyIndex_segmentCacheKey: "keyIndex (segmentCacheKey seg) = index seg"
proof -
  have "\<And>c. c \<in> set (zeroPad (index seg)) \<Longrightarrow> c \<noteq> CHR ''-''"
    using numberToString_no_dash [of "index seg"]
    by (auto simp: zeroPad_def padStart_def simp del: numberToString.simps)
  then have "takeWhile (\<lambda>c. c \<noteq> CHR ''-'') (segmentCacheKey seg) = zeroPad (index seg)"
    by (simp add: segmentCacheKey_def takeWhile_append2 del: numberToString.simps)
  then show ?thesis
    by (simp add: keyIndex_def zeroPad_def padStart_def decimalValue_zeros
          decimalValue_numberToString del: numberToString.simps)
qed

lemma distinct_keys_of_distinct_indices:
  assumes "distinct (map index segs)"
  shows "distinct (map segmentCacheKey segs)"
proof -
  have "map keyIndex (map segmentCacheKey segs) = map index segs"
    by (induction segs) (simp_all add: keyIndex_segmentCacheKey)
  then have "distinct (map keyIndex (map segmentCacheKey segs))"
    using assms by (rule ssubst)
  then show ?thesis unfolding distinct_map [of keyIndex] by (rule conjunct1)
qed

lemma numberSegment_index: "index (numberSegment env options (p, i)) = Suc i"
  by (cases p) (simp add: numberSegment_def)

lemma indices_of_numbering:
  "length ns = length raw \<Longrightarrow>
     map index (map (numberSegment env options) (zip raw ns)) = map Suc ns"
proof (induction raw arbitrary: ns)
  case Nil
  then show ?case by simp
next
  case (Cons x raw)
  then obtain n ns' where "ns = n # ns'" "length ns' = length raw" by (cases ns) auto
  with Cons.IH [of ns'] show ?case by (simp add: numberSegment_index)
qed

lemma chunkScript_indices:
  "map index (chunkScript env content options)
     = map Suc [0 ..< length (chunkScript env content options)]"
proof -
  let ?raw = "applyTemplate env options (rawSections content options)"
  have cs: "chunkScript env content options
      = map (numberSegment env options) (zip ?raw [0 ..< length ?raw])"
    unfolding chunkScript_def Let_def ..
  have len: "length (chunkScript env content options) = length ?raw"
    unfolding cs by simp
  have "map index (chunkScript env content options) = map Suc [0 ..< length ?raw]"
    unfolding cs by (rule indices_of_numbering) simp
  then show ?thesis unfolding len .
qed

lemma chunkScript_distinct_indices:
  "distinct (map index (chunkScript env content options))"
  unfolding chunkScript_indices by (simp add: distinct_map)

lemma chunkScript_distinct_keys:
  "distinct (map segmentCacheKey (chunkScript env content options))"
proof (rule distinct_keys_of_distinct_indices)
  show "distinct (map index (chunkScript env content options))"
    unfolding chunkScript_indices by (simp add: distinct_map)
qed

section \<open>Rendering twice\<close>

lemma files_saveCacheManifest:
  "files (saveCacheManifest dir m w) p \<noteq> None \<longleftrightarrow> p = cacheManifestPath dir \<or> files w p \<noteq> None"
  by (simp add: saveCacheManifest_def writeOutputFile_def)

lemma segmentFilePath_same_dir:
  "outputDir options2 = outputDir options \<Longrightarrow>
     segmentFilePath options2 seg = segmentFilePath options seg"
  by (simp add: segmentFilePath_def)

lemma entry_after_pass:
  assumes keys: "distinct (map segmentCacheKey segs)"
    and loop: "renderNew env options (map (checkCache options cache fs) segs) cache w
                 = (Inr (results, uc'), w0)"
    and fs: "fs = files w"
    and s: "s \<in> set segs"
  shows "(\<exists>e. uc' (segmentCacheKey s) = Some e \<and> entry_hash e = hash s
               \<and> entry_file e = segmentFileName s)
         \<and> files w0 (segmentFilePath options s) \<noteq> None"
proof -
  let ?cc = "checkCache options cache fs"
  let ?rs = "map ?cc segs"
  let ?key = "\<lambda>r. segmentCacheKey (segment r)"
  let ?r = "?cc s"
  from keys have inj: "inj_on segmentCacheKey (set segs)" by (simp add: distinct_map)
  have same: "r' = ?r" if "r' \<in> set ?rs" and "?key r' = segmentCacheKey s" for r'
  proof -
    from that(1) obtain s' where s': "s' \<in> set segs" "r' = ?cc s'" by auto
    with that(2) have "segmentCacheKey s' = segmentCacheKey s" by simp
    with inj s s'(1) have "s' = s" by (auto dest: inj_onD)
    with s'(2) show ?thesis by simp
  qed
  note cache = renderNew_Inr_cache [OF loop]
  note filesf = renderNew_Inr_files [OF loop]
  show ?thesis
  proof (cases "cached ?r")
    case True
    then obtain e where e: "cache (segmentCacheKey s) = Some e" "entry_hash e = hash s"
        "entry_file e = segmentFileName s"
      and ex: "fileExists fs (segmentFilePath options s)"
      unfolding checkCache_cached by blast
    have "segmentCacheKey s \<notin> ?key ` set (misses ?rs)"
    proof
      assume "segmentCacheKey s \<in> ?key ` set (misses ?rs)"
      then obtain r' where r': "r' \<in> set (misses ?rs)" "?key r' = segmentCacheKey s" by auto
      then have "r' \<in> set ?rs" "\<not> cached r'" by (auto simp: misses_def)
      with same r'(2) True show False by blast
    qed
    with cache have "uc' (segmentCacheKey s) = cache (segmentCacheKey s)" by blast
    moreover from ex fs filesf have "files w0 (segmentFilePath options s) \<noteq> None"
      by (simp add: fileExists_def)
    ultimately show ?thesis using e by simp
  next
    case False
    with s have in_m: "?r \<in> set (misses ?rs)" by (simp add: misses_def)
    then have "segmentCacheKey s \<in> ?key ` set (misses ?rs)" by force
    with cache obtain r' e where
      r': "r' \<in> set (misses ?rs)" "?key r' = segmentCacheKey s"
          "uc' (segmentCacheKey s) = Some e" "entry_hash e = hash (segment r')"
          "entry_file e = fileName r'"
      by blast
    from r'(1) have "r' \<in> set ?rs" by (simp add: misses_def)
    with same r'(2) have "r' = ?r" by blast
    with r'(3,4,5) have "\<exists>e. uc' (segmentCacheKey s) = Some e \<and> entry_hash e = hash s
               \<and> entry_file e = segmentFileName s"
      by simp
    moreover from filesf in_m have "files w0 (filePath ?r) \<noteq> None" by blast
    ultimately show ?thesis by simp
  qed
qed

text \<open>
  Claim C4. A segment list has unique indices (the data model's invariant;
  \<open>chunkScript\<close>, the only producer of the lists handed to \<open>renderSegments\<close>, numbers them
  1, 2, ..., see \<open>chunkScript_distinct_indices\<close>). After a pass over such a list that
  returns, a second pass over the same list with \<open>force\<close> off and the same output
  directory returns, marks every result cached, so that the cached count is the segment
  count, and makes no TTS call, whatever the TTS client would answer.
\<close>

theorem second_pass_all_cached:
  assumes idx: "distinct (map index segs)"
    and first: "renderSegments env options segs w = (Inr results, w1)"
    and dir: "outputDir options2 = outputDir options"
    and nf: "\<not> force options2"
  shows "\<exists>results2 w2. renderSegments env2 options2 segs w1 = (Inr results2, w2)
           \<and> list_all cached results2
           \<and> length (filter cached results2) = length segs
           \<and> ttsLog w2 = ttsLog w1"
proof -
  from idx have keys: "distinct (map segmentCacheKey segs)"
    by (rule distinct_keys_of_distinct_indices)
  from first obtain uc' w0 where
    loop: "renderNew env options
        (map (checkCache options (initialCache options (files w)) (files w)) segs)
        (initialCache options (files w)) w = (Inr (results, uc'), w0)" and
    w1: "w1 = saveCacheManifest (outputDir options) uc' w0"
    by (rule renderSegments_Inr)
  have cache2: "initialCache options2 (files w1) = uc'"
    using nf dir w1 by (simp add: initialCache_def loadCacheManifest_saved)
  let ?rs2 = "map (checkCache options2 uc' (files w1)) segs"
  have hit: "cached (checkCache options2 uc' (files w1) s)" if s: "s \<in> set segs" for s
  proof -
    from entry_after_pass [OF keys loop refl s] obtain e where
      e: "uc' (segmentCacheKey s) = Some e" "entry_hash e = hash s"
         "entry_file e = segmentFileName s"
      and f: "files w0 (segmentFilePath options s) \<noteq> None"
      by blast
    from f have "files (saveCacheManifest (outputDir options) uc' w0)
                    (segmentFilePath options s) \<noteq> None"
      unfolding files_saveCacheManifest by (rule disjI2)
    then have "fileExists (files w1) (segmentFilePath options2 s)"
      unfolding w1 fileExists_def segmentFilePath_same_dir [OF dir] .
    with e nf show ?thesis unfolding checkCache_cached by blast
  qed
  then have all: "list_all cached ?rs2" by (simp add: list_all_iff)
  then have run2: "renderSegments env2 options2 segs w1
      = (Inr ?rs2, saveCacheManifest (outputDir options2) uc' w1)"
    by (simp add: renderSegments_def cache2 renderNew_all_cached)
  from all have "filter cached ?rs2 = ?rs2" by (simp add: list_all_iff)
  then have len: "length (filter cached ?rs2) = length segs" by simp
  have "renderSegments env2 options2 segs w1
           = (Inr ?rs2, saveCacheManifest (outputDir options2) uc' w1)
        \<and> list_all cached ?rs2
        \<and> length (filter cached ?rs2) = length segs
        \<and> ttsLog (saveCacheManifest (outputDir options2) uc' w1) = ttsLog w1"
    using run2 all len by simp
  then show ?thesis by - (rule exI, rule exI, assumption)
qed

theorem second_pass_all_cached_witness:
  "\<exists>results2 w2.
     renderSegments exampleClient exampleOptions twoSegments
        (snd (renderSegments exampleClient exampleOptions twoSegments warmWorld))
       = (Inr results2, w2)
     \<and> list_all cached results2
     \<and> length (filter cached results2) = length twoSegments
     \<and> ttsLog w2 = ttsLog (snd (renderSegments exampleClient exampleOptions twoSegments warmWorld))"
proof -
  let ?first = "renderSegments exampleClient exampleOptions twoSegments warmWorld"
  have idx: "distinct (map index twoSegments)"
    by (simp add: twoSegments_def exampleSegment_def)
  have "\<not> isl (fst ?first)" by (simp add: eval_defs)
  then obtain results where first: "?first = (Inr results, snd ?first)"
    by (cases "fst ?first") (simp_all add: prod_eq_iff)
  have nf: "\<not> force exampleOptions" by (simp add: exampleOptions_def)
  from second_pass_all_cached [OF idx first refl nf, of exampleClient]
  show ?thesis .
qed

section \<open>What a pass does to the manifest\<close>

lemma renderSegments_Inl_manifest:
  assumes "renderSegments env options segs w = (Inl msg, w')"
  shows "files w' (cacheManifestPath (outputDir options))
          = files w (cacheManifestPath (outputDir options))"
proof -
  let ?cc = "checkCache options (initialCache options (files w)) (files w)"
  from assms have loop: "renderNew env options (map ?cc segs) (initialCache options (files w)) w
      = (Inl msg, w')"
    by (rule renderSegments_Inl)
  from renderNew_Inl [OF loop] obtain pre' r0 post' where
    split: "map ?cc segs = pre' @ r0 # post'" and
    h2: "\<forall>p. p \<notin> filePath ` set (misses pre') \<longrightarrow> files w' p = files w p"
    by blast
  have "set pre' \<subseteq> set (pre' @ r0 # post')" by auto
  with split have h1: "set pre' \<subseteq> set (map ?cc segs)" by simp
  note h = h1 h2
  have "cacheManifestPath (outputDir options) \<notin> filePath ` set (misses pre')"
  proof
    assume "cacheManifestPath (outputDir options) \<in> filePath ` set (misses pre')"
    then obtain r where "r \<in> set pre'" "filePath r = cacheManifestPath (outputDir options)"
      by (auto simp: misses_def)
    with h(1) obtain s where "segmentFilePath options s = cacheManifestPath (outputDir options)"
      by auto
    with manifest_path_not_audio [of options s] show False by simp
  qed
  with h(2) show ?thesis by blast
qed

lemma shape_segments:
  assumes "list_all2 (\<lambda>r r'. segment r' = segment r \<and> filePath r' = filePath r
                     \<and> fileName r' = fileName r \<and> cached r' = cached r
                     \<and> (cached r \<longrightarrow> r' = r)) rs rs'"
  shows "map segment rs' = map segment rs"
  using assms by (induction rule: list_all2_induct) simp_all

lemma miss_keys_image:
  "(\<lambda>r. segmentCacheKey (segment r)) ` set (misses rs)
     = segmentCacheKey ` set (map segment (misses rs))"
  by (simp add: image_image)

text \<open>
  Claim C5, as amended. With \<open>force\<close> off, every key of the manifest on disk before a
  pass is a key of the manifest on disk after it, whether the pass returns or throws; its
  entry is the old one or the one a segment of the pass wrote (hash and file name of that
  segment). Entries of segments that are no longer in the script stay.
\<close>

theorem manifest_keys_kept_without_force:
  assumes nf: "\<not> force options"
    and run: "renderSegments env options segs w = (out, w')"
  shows "\<forall>k e. loadCacheManifest (files w) (outputDir options) k = Some e \<longrightarrow>
           (\<exists>e'. loadCacheManifest (files w') (outputDir options) k = Some e'
              \<and> (e' = e \<or> (\<exists>s \<in> set segs. segmentCacheKey s = k \<and> entry_hash e' = hash s
                                \<and> entry_file e' = segmentFileName s)))"
proof (intro allI impI)
  fix k e
  assume old: "loadCacheManifest (files w) (outputDir options) k = Some e"
  let ?cache = "initialCache options (files w)"
  let ?cc = "checkCache options ?cache (files w)"
  have cache: "?cache = loadCacheManifest (files w) (outputDir options)"
    using nf by (simp add: initialCache_def)
  show "\<exists>e'. loadCacheManifest (files w') (outputDir options) k = Some e'
              \<and> (e' = e \<or> (\<exists>s \<in> set segs. segmentCacheKey s = k \<and> entry_hash e' = hash s
                                \<and> entry_file e' = segmentFileName s))"
  proof (cases out)
    case (Inl msg)
    with run have "files w' (cacheManifestPath (outputDir options))
          = files w (cacheManifestPath (outputDir options))"
      by (simp add: renderSegments_Inl_manifest)
    then have "loadCacheManifest (files w') (outputDir options)
        = loadCacheManifest (files w) (outputDir options)"
      by (simp add: loadCacheManifest_def)
    with old show ?thesis by simp
  next
    case (Inr results)
    with run have "renderSegments env options segs w = (Inr results, w')" by simp
    then obtain uc' w0 where
      loop: "renderNew env options (map ?cc segs) ?cache w = (Inr (results, uc'), w0)" and
      w': "w' = saveCacheManifest (outputDir options) uc' w0"
      by (rule renderSegments_Inr)
    have new: "loadCacheManifest (files w') (outputDir options) = uc'"
      unfolding w' by (rule loadCacheManifest_saved)
    note c = renderNew_Inr_cache [OF loop]
    show ?thesis
    proof (cases "k \<in> (\<lambda>r. segmentCacheKey (segment r)) ` set (misses (map ?cc segs))")
      case False
      with c have "uc' k = ?cache k" by blast
      with old cache new show ?thesis by simp
    next
      case True
      with c obtain r e' where
        r: "r \<in> set (misses (map ?cc segs))" "segmentCacheKey (segment r) = k"
           "uc' k = Some e'" "entry_hash e' = hash (segment r)" "entry_file e' = fileName r"
        by blast
      from r(1) obtain s where s: "s \<in> set segs" "r = ?cc s" by (auto simp: misses_def)
      with r have "segmentCacheKey s = k \<and> entry_hash e' = hash s
                    \<and> entry_file e' = segmentFileName s"
        by simp
      with s(1) r(3) new show ?thesis by auto
    qed
  qed
qed

theorem manifest_keys_kept_without_force_witness:
  "\<exists>e'. loadCacheManifest (files (snd (renderSegments exampleClient exampleOptions
              [exampleSegment 1 ''Opening'' ''Hi.'' ''h9''] warmWorld))) ''out'' ''001-intro''
            = Some e'
        \<and> e' = \<lparr> entry_hash = ''h1'', entry_file = ''001-intro.wav'', entry_duration = 3 \<rparr>"
proof -
  let ?run = "renderSegments exampleClient exampleOptions
              [exampleSegment 1 ''Opening'' ''Hi.'' ''h9''] warmWorld"
  let ?e = "\<lparr> entry_hash = ''h1'', entry_file = ''001-intro.wav'', entry_duration = 3 \<rparr>"
  have nf: "\<not> force exampleOptions" by (simp add: exampleOptions_def)
  have run: "?run = (fst ?run, snd ?run)" by simp
  have old: "loadCacheManifest (files warmWorld) (outputDir exampleOptions) ''001-intro'' = Some ?e"
    by (simp add: eval_defs)
  from manifest_keys_kept_without_force [OF nf run, rule_format, OF old]
  obtain e' where
    e': "loadCacheManifest (files (snd ?run)) (outputDir exampleOptions) ''001-intro'' = Some e'"
        "e' = ?e \<or> (\<exists>s \<in> set [exampleSegment 1 ''Opening'' ''Hi.'' ''h9''].
                      segmentCacheKey s = ''001-intro'' \<and> entry_hash e' = hash s
                      \<and> entry_file e' = segmentFileName s)"
    by blast
  have "segmentCacheKey (exampleSegment 1 ''Opening'' ''Hi.'' ''h9'') \<noteq> ''001-intro''"
    by (simp add: eval_defs)
  with e'(2) have "e' = ?e" by simp
  moreover from e'(1) have "loadCacheManifest (files (snd ?run)) ''out'' ''001-intro'' = Some e'"
    by (simp add: exampleOptions_def)
  ultimately show ?thesis by simp
qed

text \<open>
  Claim C5 as stated includes \<open>force\<close>. With \<open>force\<close> on, the pass starts from the empty cache
  (\<open>options.force ? {} : ...\<close>) and saves only what it rendered: the entry of a segment
  that is no longer in the script is gone from the manifest afterwards.
\<close>

theorem forced_pass_drops_entries_counterexample:
  "loadCacheManifest (files warmWorld) ''out'' ''001-intro''
     = Some \<lparr> entry_hash = ''h1'', entry_file = ''001-intro.wav'', entry_duration = 3 \<rparr>
   \<and> fst (renderSegments exampleClient (exampleOptions\<lparr> force := True \<rparr>)
           [exampleSegment 1 ''Opening'' ''Hi.'' ''h9''] warmWorld)
     = Inr [\<lparr> segment = exampleSegment 1 ''Opening'' ''Hi.'' ''h9'',
              filePath = ''out/segments/001-opening.wav'', fileName = ''001-opening.wav'',
              cached = False, duration = 5 / 2 \<rparr>]
   \<and> loadCacheManifest (files (snd (renderSegments exampleClient (exampleOptions\<lparr> force := True \<rparr>)
           [exampleSegment 1 ''Opening'' ''Hi.'' ''h9''] warmWorld))) ''out'' ''001-intro''
     = None"
  by (simp add: eval_defs)

text \<open>
  Claim C9. In a pass with \<open>force\<close> off that returns, over a segment list with unique
  indices (the data model's invariant, which \<open>chunkScript\<close> establishes), every segment
  whose result is cached has the same entry under its key in the saved manifest as in the
  loaded one; and the saved manifest differs from the loaded one only under keys of
  segments that were not cached.
\<close>

theorem cache_hits_keep_their_entries:
  assumes nf: "\<not> force options"
    and run: "renderSegments env options segs w = (Inr results, w')"
    and idx: "distinct (map index segs)"
  shows "(\<forall>r \<in> set results. cached r \<longrightarrow>
            (\<exists>e. loadCacheManifest (files w) (outputDir options) (segmentCacheKey (segment r)) = Some e
               \<and> loadCacheManifest (files w') (outputDir options) (segmentCacheKey (segment r)) = Some e))
       \<and> (\<forall>k. k \<notin> (\<lambda>r. segmentCacheKey (segment r)) ` set (misses results) \<longrightarrow>
            loadCacheManifest (files w') (outputDir options) k
              = loadCacheManifest (files w) (outputDir options) k)"
proof -
  let ?cache = "initialCache options (files w)"
  let ?cc = "checkCache options ?cache (files w)"
  let ?key = "\<lambda>r. segmentCacheKey (segment r)"
  let ?old = "loadCacheManifest (files w) (outputDir options)"
  let ?new = "loadCacheManifest (files w') (outputDir options)"
  from idx have d: "distinct (map segmentCacheKey segs)"
    by (rule distinct_keys_of_distinct_indices)
  have cache: "?cache = ?old" using nf by (simp add: initialCache_def)
  from run obtain uc' w0 where
    loop: "renderNew env options (map ?cc segs) ?cache w = (Inr (results, uc'), w0)" and
    w': "w' = saveCacheManifest (outputDir options) uc' w0"
    by (rule renderSegments_Inr)
  have new: "?new = uc'" unfolding w' by (rule loadCacheManifest_saved)
  note shape = renderNew_Inr_shape [OF loop]
  have keys_eq: "?key ` set (misses results) = ?key ` set (misses (map ?cc segs))"
    unfolding miss_keys_image shape_misses [OF shape] ..
  have "\<forall>k. k \<notin> ?key ` set (misses (map ?cc segs)) \<longrightarrow> uc' k = ?cache k"
    using renderNew_Inr_cache [OF loop] by (rule conjunct1)
  then have frame: "\<forall>k. k \<notin> ?key ` set (misses results) \<longrightarrow> ?new k = ?old k"
    unfolding keys_eq new cache .
  have hits: "\<exists>e. ?old (?key r) = Some e \<and> ?new (?key r) = Some e"
    if r: "r \<in> set results" "cached r" for r
  proof -
    have "map segment results = segs" using shape_segments [OF shape] by (simp add: comp_def)
    then have "map ?key results = map segmentCacheKey segs"
      by (metis (no_types, lifting) map_map comp_apply map_eq_conv)
    with d have "distinct (map ?key results)" by simp
    then have inj: "inj_on ?key (set results)" by (simp add: distinct_map)
    have "?key r \<notin> ?key ` set (misses results)"
    proof
      assume "?key r \<in> ?key ` set (misses results)"
      then obtain r' where r': "r' \<in> set results" "\<not> cached r'" "?key r' = ?key r"
        by (auto simp: misses_def)
      with inj r(1) have "r' = r" by (auto dest: inj_onD)
      with r(2) r'(2) show False by simp
    qed
    with frame have same: "?new (?key r) = ?old (?key r)" by blast
    from r(1) obtain i where i: "i < length results" "results ! i = r"
      by (auto simp: in_set_conv_nth)
    have len: "length (map ?cc segs) = length results"
      using list_all2_lengthD [OF shape] .
    with i(1) have i': "i < length (map ?cc segs)" by simp
    from list_all2_nthD [OF shape i'] i(2) r(2)
    have "cached (map ?cc segs ! i)" and "r = map ?cc segs ! i" by simp_all
    moreover from i' have "map ?cc segs ! i = ?cc (segs ! i)" by simp
    ultimately have cr: "cached (?cc (segs ! i))" and req: "r = ?cc (segs ! i)" by simp_all
    from cr obtain e where "?cache (segmentCacheKey (segs ! i)) = Some e"
      unfolding checkCache_cached by blast
    with req cache have "?old (?key r) = Some e" by simp
    with same show ?thesis by simp
  qed
  from hits frame show ?thesis by blast
qed

theorem cache_hits_keep_their_entries_witness:
  "cached (hd (projr (fst (renderSegments exampleClient exampleOptions twoSegments warmWorld))))
   \<and> loadCacheManifest (files (snd (renderSegments exampleClient exampleOptions twoSegments
          warmWorld))) ''out'' ''001-intro''
     = Some \<lparr> entry_hash = ''h1'', entry_file = ''001-intro.wav'', entry_duration = 3 \<rparr>"
proof -
  let ?run = "renderSegments exampleClient exampleOptions twoSegments warmWorld"
  let ?r0 = "\<lparr> segment = exampleSegment 1 ''Intro'' ''Hello.'' ''h1'',
              filePath = ''out/segments/001-intro.wav'', fileName = ''001-intro.wav'',
              cached = True, duration = 3 \<rparr>"
  let ?r1 = "\<lparr> segment = exampleSegment 2 ''Body'' ''Main part.'' ''h2'',
              filePath = ''out/segments/002-body.wav'', fileName = ''002-body.wav'',
              cached = False, duration = 5 / 2 \<rparr>"
  have nf: "\<not> force exampleOptions" by (simp add: exampleOptions_def)
  have ev: "fst ?run = Inr [?r0, ?r1]" by (simp add: eval_defs)
  then have run: "?run = (Inr [?r0, ?r1], snd ?run)" by (simp add: prod_eq_iff)
  have idx: "distinct (map index twoSegments)"
    by (simp add: twoSegments_def exampleSegment_def)
  have key0: "segmentCacheKey (segment ?r0) = ''001-intro''" by (simp add: eval_defs)
  from cache_hits_keep_their_entries [OF nf run idx, THEN conjunct1, rule_format, of ?r0]
  obtain e where
    e: "loadCacheManifest (files warmWorld) (outputDir exampleOptions) (segmentCacheKey (segment ?r0)) = Some e"
       "loadCacheManifest (files (snd ?run)) (outputDir exampleOptions) (segmentCacheKey (segment ?r0)) = Some e"
    by auto
  have old: "loadCacheManifest (files warmWorld) ''out'' ''001-intro''
      = Some \<lparr> entry_hash = ''h1'', entry_file = ''001-intro.wav'', entry_duration = 3 \<rparr>"
    by (simp add: eval_defs)
  from e(1) old have "e = \<lparr> entry_hash = ''h1'', entry_file = ''001-intro.wav'', entry_duration = 3 \<rparr>"
    unfolding key0 by (simp add: exampleOptions_def)
  with e(2) have "loadCacheManifest (files (snd ?run)) ''out'' ''001-intro''
      = Some \<lparr> entry_hash = ''h1'', entry_file = ''001-intro.wav'', entry_duration = 3 \<rparr>"
    unfolding key0 by (simp add: exampleOptions_def)
  then show ?thesis using ev by simp
qed

section \<open>Chunking\<close>

text \<open>
  Claim C6 says that \<open>chunkScript\<close> in headings mode falls back to length-based chunking
  whenever no section is titled by a \<open>##\<close> heading, and the code says so in its comment
  "Fallback to auto if no real ## headings found". The test behind \<open>hasRealHeadings\<close>
  only looks for a title other than \<open>Preamble\<close> and \<open>Untitled Section\<close>, and the fallback
  title of the preamble is the \<open>#\<close> title when there is one. A script with a \<open>#\<close> title
  and no \<open>##\<close> heading is therefore kept as one heading-mode segment, longer than
  \<open>maxChars\<close>, where \<open>autoChunk\<close> would cut its text in two (and the fallback, which
  chunks the whole content, would give two chunks as well).
\<close>

theorem h1_only_script_is_not_rechunked:
  "list_all (\<lambda>line. headingMatch ''##'' line = None) (splitOn (CHR 0x0A) h1OnlyScript)
   \<and> chunkScript env h1OnlyScript headingsOptions
     = [\<lparr> index = 1, title = ''My Video'', slug = ''my-video'',
          seg_text = ''First part. Second part.'', source = SrcHeading,
          hash = contentHash env [''First part. Second part.'', ''ellie'', ''en''] \<rparr>]
   \<and> length ''First part. Second part.'' > c_maxChars headingsOptions
   \<and> map sec_text (autoChunk ''First part. Second part.'' (c_maxChars headingsOptions))
     = [''First part.'', ''Second part.'']
   \<and> map sec_text (autoChunk h1OnlyScript (c_maxChars headingsOptions))
     = [''# My Video'' @ [CHR 0x0A, CHR 0x0A] @ ''First part.'', ''Second part.'']"
proof (intro conjI)
  show "list_all (\<lambda>line. headingMatch ''##'' line = None) (splitOn (CHR 0x0A) h1OnlyScript)"
    by code_simp
  have parse: "parseMarkdownHeadings h1OnlyScript
      = [\<lparr> sec_title = ''My Video'', sec_text = ''First part. Second part.'' \<rparr>]"
    by code_simp
  have slug: "slugify ''My Video'' = ''my-video''"
    by code_simp
  show "chunkScript env h1OnlyScript headingsOptions
     = [\<lparr> index = 1, title = ''My Video'', slug = ''my-video'',
          seg_text = ''First part. Second part.'', source = SrcHeading,
          hash = contentHash env [''First part. Second part.'', ''ellie'', ''en''] \<rparr>]"
    by (simp add: chunkScript_def rawSections_def applyTemplate_def numberSegment_def
          headingsOptions_def parse slug)
  show "length ''First part. Second part.'' > c_maxChars headingsOptions"
    by (simp add: headingsOptions_def)
  show "map sec_text (autoChunk ''First part. Second part.'' (c_maxChars headingsOptions))
     = [''First part.'', ''Second part.'']"
    by code_simp  show "map sec_text (autoChunk h1OnlyScript (c_maxChars headingsOptions))
     = [''# My Video'' @ [CHR 0x0A, CHR 0x0A] @ ''First part.'', ''Second part.'']"
    by code_simp
qed

text \<open>
  Claim C7 says that the chunks of \<open>autoChunk\<close> give back every sentence and the trailing
  text of the input. The sentences are the matches of \<open>/[^.!?]+[.!?]+[\s]*/g\<close>, and only a
  text with no match at all is kept whole (\<open>?? [text]\<close>): text after the last
  terminator matches nothing and is dropped. Here the input is longer than the limit
  and its last word is lost.
\<close>

theorem autoChunk_drops_trailing_text:
  "autoChunk ''One. Two. Three'' 10
     = [\<lparr> sec_title = ''Segment 1'', sec_text = ''One. Two.'' \<rparr>]"
  by code_simp

end
